theory Spec2Isabelle
  imports Complex_Main "HOL-Library.AList" "HOL-Library.Sublist"
begin

section \<open>Python values\<close>

text \<open>
  The orchestrator passes open dictionaries of dynamically typed values around
  (\<^verbatim>\<open>parameters: dict\<close>, \<^verbatim>\<open>result: Any\<close>, \<^verbatim>\<open>references: dict[str, Any]\<close>).
  They are embedded as JSON-like values. A dictionary is an association list with string
  keys in insertion order; \<open>map_of\<close> reads a key and \<open>AList.update\<close> stores one (an
  existing key keeps its place, a new key goes to the end, as in a Python dict).
  Floating-point values are left out: no modelled operation computes with them.
  Strings are ASCII text.
\<close>

datatype pyval =
    PNone
  | PBool bool
  | PInt int
  | PStr string
  | PList "pyval list"
  | PDict "(string \<times> pyval) list"

type_synonym pydict = "(string \<times> pyval) list"

text \<open>The exceptions the modelled code can raise.\<close>

datatype error = TypeError | AttributeError | KeyError | ServiceError string

text \<open>Truth value of a Python object in a condition.\<close>

fun truthy :: "pyval \<Rightarrow> bool" where
  "truthy PNone = False"
| "truthy (PBool b) = b"
| "truthy (PInt i) = (i \<noteq> 0)"
| "truthy (PStr s) = (s \<noteq> [])"
| "truthy (PList xs) = (xs \<noteq> [])"
| "truthy (PDict d) = (d \<noteq> [])"

text \<open>\<^verbatim>\<open>d.get(k)\<close> and \<^verbatim>\<open>d.get(k, default)\<close> on a dictionary.\<close>

definition dict_get :: "pydict \<Rightarrow> string \<Rightarrow> pyval" where
  "dict_get d k = (case map_of d k of None \<Rightarrow> PNone | Some v \<Rightarrow> v)"

definition dict_get_default :: "pydict \<Rightarrow> string \<Rightarrow> pyval \<Rightarrow> pyval" where
  "dict_get_default d k dflt = (case map_of d k of None \<Rightarrow> dflt | Some v \<Rightarrow> v)"

text \<open>\<^verbatim>\<open>k in d\<close> for a dictionary.\<close>

definition has_key :: "string \<Rightarrow> pydict \<Rightarrow> bool" where
  "has_key k d = (map_of d k \<noteq> None)"

text \<open>\<^verbatim>\<open>'k' in v\<close> for an arbitrary value: key of a dictionary, element of a list,
  substring of a string; any other value is not iterable.\<close>

fun py_in :: "string \<Rightarrow> pyval \<Rightarrow> error + bool" where
  "py_in k (PDict d) = Inr (has_key k d)"
| "py_in k (PList xs) = Inr (PStr k \<in> set xs)"
| "py_in k (PStr s) = Inr (sublist k s)"
| "py_in k _ = Inl TypeError"

text \<open>\<^verbatim>\<open>v.get('k')\<close> for an arbitrary value: only a dictionary has the method.\<close>

fun py_get :: "pyval \<Rightarrow> string \<Rightarrow> error + pyval" where
  "py_get (PDict d) k = Inr (dict_get d k)"
| "py_get _ k = Inl AttributeError"

text \<open>\<^verbatim>\<open>v['k']\<close> for an arbitrary value.\<close>

fun py_subscript :: "pyval \<Rightarrow> string \<Rightarrow> error + pyval" where
  "py_subscript (PDict d) k = (case map_of d k of None \<Rightarrow> Inl KeyError | Some v \<Rightarrow> Inr v)"
| "py_subscript _ k = Inl TypeError"

text \<open>The elements \<^verbatim>\<open>for a in v\<close> runs over: the items of a list, the characters of
  a string, the keys of a dictionary.\<close>

fun py_iter :: "pyval \<Rightarrow> error + pyval list" where
  "py_iter (PList xs) = Inr xs"
| "py_iter (PStr s) = Inr (map (\<lambda>c. PStr [c]) s)"
| "py_iter (PDict d) = Inr (map (\<lambda>(k, v). PStr k) d)"
| "py_iter _ = Inl TypeError"

text \<open>\<^verbatim>\<open>v += t\<close> for a string \<open>t\<close>: concatenation on a string, extension by the
  characters of \<open>t\<close> on a list, a \<^verbatim>\<open>TypeError\<close> otherwise.\<close>

fun py_iadd_str :: "pyval \<Rightarrow> string \<Rightarrow> error + pyval" where
  "py_iadd_str (PStr s) t = Inr (PStr (s @ t))"
| "py_iadd_str (PList xs) t = Inr (PList (xs @ map (\<lambda>c. PStr [c]) t))"
| "py_iadd_str _ t = Inl TypeError"

text \<open>The comprehension \<^verbatim>\<open>[a.get('email') for a in xs if 'email' in a]\<close>, which the
  workflow engine and the inference engine both use; it stops at the first element that
  raises.\<close>

fun attendee_emails :: "pyval list \<Rightarrow> error + pyval list" where
  "attendee_emails [] = Inr []"
| "attendee_emails (a # as) =
     (case py_in ''email'' a of
        Inl e \<Rightarrow> Inl e
      | Inr False \<Rightarrow> attendee_emails as
      | Inr True \<Rightarrow>
          (case py_get a ''email'' of
             Inl e \<Rightarrow> Inl e
           | Inr v \<Rightarrow>
               (case attendee_emails as of
                  Inl e \<Rightarrow> Inl e
                | Inr vs \<Rightarrow> Inr (v # vs))))"

subsection \<open>Strings\<close>

text \<open>\<^verbatim>\<open>str.lower()\<close> on ASCII text.\<close>

definition lower_char :: "char \<Rightarrow> char" where
  "lower_char c =
     (if 65 \<le> (of_char c :: nat) \<and> (of_char c :: nat) \<le> 90
      then char_of ((of_char c :: nat) + 32) else c)"

definition lower :: "string \<Rightarrow> string" where
  "lower s = map lower_char s"

text \<open>Whitespace as \<^verbatim>\<open>str.isspace\<close>, \<^verbatim>\<open>str.strip\<close>, \<^verbatim>\<open>str.split\<close> and the
  pattern \<^verbatim>\<open>\s\<close> see it on ASCII text, and the decimal digits of \<^verbatim>\<open>\d\<close>.\<close>

definition is_space :: "char \<Rightarrow> bool" where
  "is_space c =
     (let n = (of_char c :: nat) in (9 \<le> n \<and> n \<le> 13) \<or> (28 \<le> n \<and> n \<le> 32))"

definition is_digit :: "char \<Rightarrow> bool" where
  "is_digit c = (let n = (of_char c :: nat) in 48 \<le> n \<and> n \<le> 57)"

definition strip :: "string \<Rightarrow> string" where
  "strip s = rev (dropWhile is_space (rev (dropWhile is_space s)))"

text \<open>\<^verbatim>\<open>int(ds)\<close> on a string of decimal digits, and the decimal text of a natural
  number as an f-string prints it.\<close>

definition int_of_digits :: "string \<Rightarrow> nat" where
  "int_of_digits ds = foldl (\<lambda>a c. 10 * a + ((of_char c :: nat) - 48)) 0 ds"

fun str_of_nat :: "nat \<Rightarrow> string" where
  "str_of_nat n =
     (if n < 10 then [char_of (48 + n)]
      else str_of_nat (n div 10) @ [char_of (48 + n mod 10)])"

section \<open>Safety and undo engine (\<^verbatim>\<open>src/utils/safety.py\<close>)\<close>

datatype ActionType =
    SEND_EMAIL | DELETE_EMAIL | CREATE_EVENT | DELETE_EVENT
  | SHARE_FILE | DELETE_FILE | MOVE_FILE

text \<open>A timestamp is the reading of the clock, passed in by the caller of the model.\<close>

record UndoAction =
  action_type :: ActionType
  timestamp :: nat
  resource_id :: string
  details :: pydict
  service :: string
  undo_data :: "pydict option"

record SafetyManager =
  dry_run :: bool
  undo_stack :: "UndoAction list"
  max_undo_actions :: nat

definition SafetyManager_init :: "bool \<Rightarrow> SafetyManager" where
  "SafetyManager_init dr = \<lparr>dry_run = dr, undo_stack = [], max_undo_actions = 10\<rparr>"

definition destructive_intents :: "string list" where
  "destructive_intents =
     [''delete_email'', ''delete_event'', ''delete_file'', ''move_file'',
      ''send_email'', ''share_file'', ''update_event'', ''update_file'']"

definition is_destructive :: "string \<Rightarrow> bool" where
  "is_destructive intent = (intent \<in> set destructive_intents)"

text \<open>\<^verbatim>\<open>'@example.com' in email.lower()\<close>: only a string has \<^verbatim>\<open>lower\<close>.\<close>

fun is_internal_email :: "pyval \<Rightarrow> error + bool" where
  "is_internal_email (PStr s) = Inr (sublist ''@example.com'' (lower s))"
| "is_internal_email _ = Inl AttributeError"

definition requires_confirmation :: "string \<Rightarrow> pydict \<Rightarrow> error + bool" where
  "requires_confirmation intent parameters =
     (if is_destructive intent then Inr True
      else if intent = ''send_email'' \<and>
              (case dict_get_default parameters ''to'' (PList []) of
                 PList recipients \<Rightarrow> length recipients > 3
               | _ \<Rightarrow> False)
      then Inr True
      else if intent = ''share_file'' then
        (let email = dict_get_default parameters ''email'' (PStr '''') in
         if truthy email then
           (case is_internal_email email of
              Inl e \<Rightarrow> Inl e
            | Inr internal \<Rightarrow> if \<not> internal then Inr True else Inr False)
         else Inr False)
      else Inr False)"

text \<open>\<^verbatim>\<open>record_action\<close>: append, then drop the oldest entry when the stack is over
  its capacity. \<open>now\<close> is \<^verbatim>\<open>datetime.now()\<close>.\<close>

definition record_action ::
  "SafetyManager \<Rightarrow> nat \<Rightarrow> ActionType \<Rightarrow> string \<Rightarrow> string \<Rightarrow> pydict \<Rightarrow> pydict option
     \<Rightarrow> SafetyManager" where
  "record_action m now atype rid svc det ud =
     (let action = \<lparr>action_type = atype, timestamp = now, resource_id = rid,
                    details = det, service = svc, undo_data = ud\<rparr>;
          stack = undo_stack m @ [action]
      in m\<lparr>undo_stack :=
             (if length stack > max_undo_actions m then tl stack else stack)\<rparr>)"

definition get_undo_stack :: "SafetyManager \<Rightarrow> UndoAction list" where
  "get_undo_stack m = undo_stack m"

text \<open>One \<^verbatim>\<open>record_action\<close> call: the clock reading and the five arguments.\<close>

type_synonym record_call = "nat \<times> ActionType \<times> string \<times> string \<times> pydict \<times> pydict option"

definition action_of :: "record_call \<Rightarrow> UndoAction" where
  "action_of c =
     (case c of (now, atype, rid, svc, det, ud) \<Rightarrow>
        \<lparr>action_type = atype, timestamp = now, resource_id = rid,
         details = det, service = svc, undo_data = ud\<rparr>)"

definition record_call :: "SafetyManager \<Rightarrow> record_call \<Rightarrow> SafetyManager" where
  "record_call m c =
     (case c of (now, atype, rid, svc, det, ud) \<Rightarrow> record_action m now atype rid svc det ud)"

text \<open>A sequence of \<^verbatim>\<open>record_action\<close> calls, in order.\<close>

definition record_actions :: "SafetyManager \<Rightarrow> record_call list \<Rightarrow> SafetyManager" where
  "record_actions m cs = foldl record_call m cs"

section \<open>Session memory and reference resolver (\<^verbatim>\<open>src/utils/session.py\<close>)\<close>

record CommandResult =
  cr_command :: string
  cr_timestamp :: nat
  cr_service :: string
  cr_intent :: string
  cr_parameters :: pydict
  cr_result :: pyval
  cr_success :: bool
  cr_error :: "string option"

text \<open>A value held in \<^verbatim>\<open>references\<close>: a \<^verbatim>\<open>CommandResult\<close> object or plain data.
  Python's \<^verbatim>\<open>None\<close> is \<open>RVal PNone\<close>.\<close>

datatype refval = RCmd CommandResult | RVal pyval

record SessionContext =
  session_id :: string
  started_at :: nat
  history :: "CommandResult list"
  references :: "(string \<times> refval) list"

definition SessionContext_init :: "string \<Rightarrow> nat \<Rightarrow> SessionContext" where
  "SessionContext_init sid now =
     \<lparr>session_id = sid, started_at = now, history = [], references = []\<rparr>"

text \<open>\<^verbatim>\<open>self.references.get(key)\<close>: \<^verbatim>\<open>None\<close> when the key is absent.\<close>

definition get_reference :: "SessionContext \<Rightarrow> string \<Rightarrow> refval" where
  "get_reference s key =
     (case map_of (references s) key of None \<Rightarrow> RVal PNone | Some v \<Rightarrow> v)"

definition set_reference :: "string \<Rightarrow> refval \<Rightarrow> SessionContext \<Rightarrow> SessionContext" where
  "set_reference key v s = s\<lparr>references := AList.update key v (references s)\<rparr>"

text \<open>The block repeated for the three list-valued results: store the whole result under
  \<open>all_key\<close> and, when it is a non-empty list, its first element under each of
  \<open>first_keys\<close>.\<close>

definition store_result :: "string \<Rightarrow> string list \<Rightarrow> pyval \<Rightarrow> SessionContext \<Rightarrow> SessionContext" where
  "store_result all_key first_keys res s =
     (let s1 = set_reference all_key (RVal res) s in
      case res of
        PList (x # xs) \<Rightarrow> foldl (\<lambda>s' k. set_reference k (RVal x) s') s1 first_keys
      | _ \<Rightarrow> s1)"

definition update_references :: "SessionContext \<Rightarrow> CommandResult \<Rightarrow> SessionContext" where
  "update_references s cmd_result =
     (let s1 = set_reference (''last_'' @ cr_service cmd_result @ ''_command'') (RCmd cmd_result) s;
          s2 = set_reference ''last_command'' (RCmd cmd_result) s1
      in
      if cr_success cmd_result \<and> truthy (cr_result cmd_result) then
        if cr_service cmd_result = ''gmail'' then
          if cr_intent cmd_result = ''search_email'' then
            store_result ''last_emails'' [''last_email''] (cr_result cmd_result) s2
          else if cr_intent cmd_result = ''send_email'' then
            set_reference ''last_sent_email'' (RVal (cr_result cmd_result)) s2
          else s2
        else if cr_service cmd_result = ''calendar'' then
          if cr_intent cmd_result = ''list_events'' \<or> cr_intent cmd_result = ''search_event'' then
            store_result ''last_events'' [''last_event'', ''next_meeting''] (cr_result cmd_result) s2
          else if cr_intent cmd_result = ''create_event'' then
            set_reference ''last_created_event'' (RVal (cr_result cmd_result)) s2
          else s2
        else if cr_service cmd_result = ''drive'' then
          if cr_intent cmd_result = ''search_file'' then
            store_result ''last_files'' [''last_file''] (cr_result cmd_result) s2
          else s2
        else s2
      else s2)"

text \<open>One \<^verbatim>\<open>add_command\<close> call: the clock reading and the seven arguments.\<close>

definition add_command ::
  "SessionContext \<Rightarrow> nat \<Rightarrow> string \<Rightarrow> string \<Rightarrow> string \<Rightarrow> pydict \<Rightarrow> pyval \<Rightarrow> bool
     \<Rightarrow> string option \<Rightarrow> SessionContext" where
  "add_command s now cmd svc int_name params res ok err =
     (let cmd_result = \<lparr>cr_command = cmd, cr_timestamp = now, cr_service = svc,
                        cr_intent = int_name, cr_parameters = params, cr_result = res,
                        cr_success = ok, cr_error = err\<rparr>
      in update_references (s\<lparr>history := history s @ [cmd_result]\<rparr>) cmd_result)"

text \<open>A sequence of \<^verbatim>\<open>add_command\<close> calls, each given by the record it appends.\<close>

definition add_record :: "SessionContext \<Rightarrow> CommandResult \<Rightarrow> SessionContext" where
  "add_record s r =
     add_command s (cr_timestamp r) (cr_command r) (cr_service r) (cr_intent r)
       (cr_parameters r) (cr_result r) (cr_success r) (cr_error r)"

definition add_commands :: "SessionContext \<Rightarrow> CommandResult list \<Rightarrow> SessionContext" where
  "add_commands s rs = foldl add_record s rs"

definition get_last_command :: "SessionContext \<Rightarrow> CommandResult option" where
  "get_last_command s = (if history s \<noteq> [] then Some (last (history s)) else None)"

text \<open>\<^verbatim>\<open>resolve_reference\<close> returns the pair \<^verbatim>\<open>(kind, entity)\<close>; the session is
  threaded through and returned beside it, so that what the call does to the session is
  part of the model. The two positional branches fall through to the next test when the
  last result is not a long enough list.\<close>

definition positional :: "SessionContext \<Rightarrow> nat \<Rightarrow> (string option \<times> refval) option" where
  "positional s i =
     (case get_last_command s of
        None \<Rightarrow> None
      | Some last_cmd \<Rightarrow>
          (if truthy (cr_result last_cmd) then
             (case cr_result last_cmd of
                PList xs \<Rightarrow>
                  if length xs > i then Some (Some (cr_service last_cmd), RVal (xs ! i))
                  else None
              | _ \<Rightarrow> None)
           else None))"

definition resolve_reference ::
  "SessionContext \<Rightarrow> string \<Rightarrow> (string option \<times> refval) \<times> SessionContext" where
  "resolve_reference s text =
     (let text_lower = lower text in
      if list_ex (\<lambda>phrase. sublist phrase text_lower) [''that email'', ''the email'', ''this email'']
      then ((Some ''email'', get_reference s ''last_email''), s)
      else if sublist ''last email'' text_lower
      then ((Some ''email'', get_reference s ''last_email''), s)
      else if list_ex (\<lambda>phrase. sublist phrase text_lower) [''that meeting'', ''the meeting'', ''this meeting'']
      then ((Some ''event'', get_reference s ''last_event''), s)
      else if list_ex (\<lambda>phrase. sublist phrase text_lower) [''next meeting'', ''upcoming meeting'']
      then ((Some ''event'', get_reference s ''next_meeting''), s)
      else if list_ex (\<lambda>phrase. sublist phrase text_lower) [''that file'', ''the file'', ''this file'']
      then ((Some ''file'', get_reference s ''last_file''), s)
      else
        (case (if text_lower \<in> set [''it'', ''that'', ''this''] then
                 (case get_last_command s of
                    None \<Rightarrow> None
                  | Some last_cmd \<Rightarrow>
                      if cr_service last_cmd = ''gmail''
                      then Some (Some ''email'', get_reference s ''last_email'')
                      else if cr_service last_cmd = ''calendar''
                      then Some (Some ''event'', get_reference s ''last_event'')
                      else if cr_service last_cmd = ''drive''
                      then Some (Some ''file'', get_reference s ''last_file'')
                      else None)
               else None) of
           Some r \<Rightarrow> (r, s)
         | None \<Rightarrow>
             (case (if sublist ''first one'' text_lower \<or> sublist ''first'' text_lower
                    then positional s 0 else None) of
                Some r \<Rightarrow> (r, s)
              | None \<Rightarrow>
                  (case (if sublist ''second one'' text_lower \<or> sublist ''second'' text_lower
                         then positional s 1 else None) of
                     Some r \<Rightarrow> (r, s)
                   | None \<Rightarrow> ((None, RVal PNone), s)))))"

section \<open>Workflow engine (\<^verbatim>\<open>src/orchestrator/workflow_engine.py\<close>)\<close>

record WorkflowStep =
  step_service :: string
  step_intent :: string
  step_parameters :: pydict
  depends_on :: "int option"
  step_result :: "pyval option"
  status :: string

text \<open>The validated answer of the language model. \<open>confidence\<close> is a number in
  \<open>[0, 1]\<close>; no modelled operation computes with it.\<close>

record MultiServiceIntent =
  multi_service :: bool
  services :: "string list"
  operations :: "pydict list"
  reasoning :: string
  confidence :: rat

text \<open>\<^verbatim>\<open>LLMClient.parse_intent\<close> is the external collaborator: it answers with a
  validated \<^verbatim>\<open>MultiServiceIntent\<close>, or with \<^verbatim>\<open>None\<close> after its retries fail. The
  model takes its answer as the argument \<open>llm\<close>.\<close>

definition detect_multi_service ::
  "(string \<Rightarrow> MultiServiceIntent option) \<Rightarrow> string \<Rightarrow> MultiServiceIntent option" where
  "detect_multi_service llm user_message =
     (case llm user_message of
        None \<Rightarrow> None
      | Some i \<Rightarrow> if multi_service i then Some i else None)"

definition can_execute_step :: "WorkflowStep \<Rightarrow> int list \<Rightarrow> bool" where
  "can_execute_step step completed_steps =
     (case depends_on step of
        None \<Rightarrow> True
      | Some k \<Rightarrow> k \<in> set completed_steps)"

definition set_param :: "string \<Rightarrow> pyval \<Rightarrow> WorkflowStep \<Rightarrow> WorkflowStep" where
  "set_param k v step = step\<lparr>step_parameters := AList.update k v (step_parameters step)\<rparr>"

text \<open>\<^verbatim>\<open>inject_context\<close> updates the step's parameters in place and returns the step.
  The model returns the step as the call leaves it, and beside it the exception when the
  call raises instead of returning (the assignments made before the exception stay).\<close>

definition inject_context ::
  "WorkflowStep \<Rightarrow> (int \<rightharpoonup> pyval) \<Rightarrow> WorkflowStep \<times> error option" where
  "inject_context step previous_results =
     (case depends_on step of
        None \<Rightarrow> (step, None)
      | Some k \<Rightarrow>
          (case previous_results k of
             None \<Rightarrow> (step, None)
           | Some dependency_result \<Rightarrow>
               (case dependency_result of
                  PDict d \<Rightarrow>
                    (let step1 =
                       (case map_of d ''id'' of
                          Some v \<Rightarrow>
                            if \<not> has_key ''id'' (step_parameters step)
                            then set_param ''id'' v step else step
                        | None \<Rightarrow> step)
                     in
                     case map_of d ''attendees'' of
                       Some att \<Rightarrow>
                         if \<not> has_key ''emails'' (step_parameters step1) then
                           (case att of
                              PList as \<Rightarrow>
                                (case attendee_emails as of
                                   Inl e \<Rightarrow> (step1, Some e)
                                 | Inr emails \<Rightarrow> (set_param ''emails'' (PList emails) step1, None))
                            | _ \<Rightarrow> (step1, None))
                         else (step1, None)
                     | None \<Rightarrow> (step1, None))
                | PList xs \<Rightarrow>
                    if \<not> has_key ''ids'' (step_parameters step)
                    then (set_param ''items'' (PList xs) step, None)
                    else (step, None)
                | _ \<Rightarrow> (step, None))))"

section \<open>Parameter inference engine (\<^verbatim>\<open>src/utils/context_inference.py\<close>)\<close>

text \<open>Sequencing of statements that may raise.\<close>

definition bind_err :: "error + 'a \<Rightarrow> ('a \<Rightarrow> error + 'b) \<Rightarrow> error + 'b" where
  "bind_err m f = (case m of Inl e \<Rightarrow> Inl e | Inr x \<Rightarrow> f x)"

text \<open>The operations of Python values on a reference, which may also be a
  \<^verbatim>\<open>CommandResult\<close> object: such an object is true in a condition, is not iterable,
  not subscriptable, and has no \<^verbatim>\<open>get\<close>.\<close>

fun ref_truthy :: "refval \<Rightarrow> bool" where
  "ref_truthy (RCmd c) = True"
| "ref_truthy (RVal v) = truthy v"

fun ref_in :: "string \<Rightarrow> refval \<Rightarrow> error + bool" where
  "ref_in k (RCmd c) = Inl TypeError"
| "ref_in k (RVal v) = py_in k v"

fun ref_subscript :: "refval \<Rightarrow> string \<Rightarrow> error + pyval" where
  "ref_subscript (RCmd c) k = Inl TypeError"
| "ref_subscript (RVal v) k = py_subscript v k"

text \<open>\<^verbatim>\<open>a or b\<close>.\<close>

definition ref_or :: "refval \<Rightarrow> refval \<Rightarrow> refval" where
  "ref_or a b = (if ref_truthy a then a else b)"

text \<open>The two service capabilities the engine reads from. Each answers with a list of
  dictionaries or raises. \<open>calls\<close> is the log of the lookups the engine has issued, kept
  so that the arguments of a lookup can be stated.\<close>

datatype service_call = ListEvents int int | SearchEmails string int

record ContextInferenceEngine =
  session :: "SessionContext option"
  gmail_service :: "(string \<Rightarrow> int \<Rightarrow> error + pydict list) option"
  calendar_service :: "(int \<Rightarrow> int \<Rightarrow> error + pydict list) option"
  calls :: "service_call list"

text \<open>\<^verbatim>\<open>_infer_meeting_params\<close>. The \<^verbatim>\<open>try\<close> block catches whatever the lookup
  raises, so the function always returns.\<close>

definition infer_meeting_params ::
  "ContextInferenceEngine \<Rightarrow> string \<Rightarrow> pydict \<Rightarrow> pydict \<times> ContextInferenceEngine" where
  "infer_meeting_params eng cmd params =
     (let (params1, eng1) =
        (if sublist ''next meeting'' cmd \<or> sublist ''upcoming meeting'' cmd then
           (case calendar_service eng of
              None \<Rightarrow> (params, eng)
            | Some list_events \<Rightarrow>
                (let eng' = eng\<lparr>calls := calls eng @ [ListEvents 7 1]\<rparr> in
                 case list_events 7 1 of
                   Inl e \<Rightarrow> (params, eng')
                 | Inr [] \<Rightarrow> (params, eng')
                 | Inr (next_event # _) \<Rightarrow>
                     (let eng'' =
                        (case session eng' of
                           None \<Rightarrow> eng'
                         | Some s \<Rightarrow>
                             eng'\<lparr>session :=
                                    Some (set_reference ''next_meeting'' (RVal (PDict next_event)) s)\<rparr>);
                          p1 = AList.update ''inferred_event'' (PDict next_event) params;
                          p2 = AList.update ''event_id'' (dict_get next_event ''id'') p1;
                          p3 = AList.update ''summary'' (dict_get next_event ''summary'') p2
                      in (p3, eng''))))
         else (params, eng));
          params2 =
            (if sublist ''today'' cmd \<and> sublist ''meeting'' cmd
             then AList.update ''days'' (PInt 1) params1
             else if sublist ''this week'' cmd then AList.update ''days'' (PInt 7) params1
             else if sublist ''next week'' cmd then AList.update ''days'' (PInt 14) params1
             else params1)
      in (params2, eng1))"

text \<open>\<^verbatim>\<open>command.find(sub)\<close>: the index of the first occurrence.\<close>

fun find_str :: "string \<Rightarrow> string \<Rightarrow> nat option" where
  "find_str sub [] = (if sub = [] then Some 0 else None)"
| "find_str sub (c # cs) =
     (if prefix sub (c # cs) then Some 0 else map_option Suc (find_str sub cs))"

text \<open>\<^verbatim>\<open>re.search(r'last\s+(\d+)\s+UNITs?', command)\<close> for \<open>unit\<close> one of \<open>day\<close>,
  \<open>week\<close>, \<open>month\<close>: the leftmost position where the text reads \<open>last\<close>, whitespace,
  digits, whitespace and the unit; the result is group 1, the digits. The three character
  classes are disjoint, so the greedy match of each run is the only one.\<close>

definition match_last_count :: "string \<Rightarrow> string \<Rightarrow> string option" where
  "match_last_count unit s =
     (if prefix ''last'' s then
        (let r1 = drop 4 s;
             r2 = dropWhile is_space r1;
             ds = takeWhile is_digit r2;
             r3 = dropWhile is_digit r2;
             r4 = dropWhile is_space r3
         in if takeWhile is_space r1 \<noteq> [] \<and> ds \<noteq> [] \<and> takeWhile is_space r3 \<noteq> []
               \<and> prefix unit r4
            then Some ds else None)
      else None)"

fun re_search_last :: "string \<Rightarrow> string \<Rightarrow> string option" where
  "re_search_last unit [] = None"
| "re_search_last unit (c # cs) =
     (case match_last_count unit (c # cs) of
        Some ds \<Rightarrow> Some ds
      | None \<Rightarrow> re_search_last unit cs)"

text \<open>The block \<^verbatim>\<open>_infer_email_params\<close> repeats for every filter token: append the
  token to a \<^verbatim>\<open>query\<close> that is present and true, after a space; otherwise set
  \<^verbatim>\<open>query\<close> to the token.\<close>

definition append_query :: "string \<Rightarrow> pydict \<Rightarrow> error + pydict" where
  "append_query tok params =
     (case map_of params ''query'' of
        Some q \<Rightarrow>
          if truthy q
          then bind_err (py_iadd_str q ('' '' @ tok))
                 (\<lambda>q'. Inr (AList.update ''query'' q' params))
          else Inr (AList.update ''query'' (PStr tok) params)
      | None \<Rightarrow> Inr (AList.update ''query'' (PStr tok) params))"

definition append_query_if :: "bool \<Rightarrow> string \<Rightarrow> pydict \<Rightarrow> error + pydict" where
  "append_query_if c tok params = (if c then append_query tok params else Inr params)"

text \<open>Lines 56 to 75 of \<^verbatim>\<open>_infer_email_params\<close>: the lookup of the last mail from a
  named sender. The \<^verbatim>\<open>try\<close> block catches whatever the lookup raises.\<close>

definition lookup_last_email ::
  "ContextInferenceEngine \<Rightarrow> string \<Rightarrow> pydict \<Rightarrow> pydict \<times> ContextInferenceEngine" where
  "lookup_last_email eng cmd params =
     (if sublist ''last email'' cmd \<and> sublist ''from'' cmd then
        (case find_str ''from'' cmd of
           None \<Rightarrow> (params, eng)
         | Some from_idx \<Rightarrow>
             (let sender_part = strip (drop (from_idx + 5) cmd) in
              if sender_part \<noteq> [] then
                (let sender = takeWhile (\<lambda>c. \<not> is_space c) sender_part in
                 case gmail_service eng of
                   None \<Rightarrow> (params, eng)
                 | Some search_emails \<Rightarrow>
                     (let eng' = eng\<lparr>calls := calls eng @ [SearchEmails (''from:'' @ sender) 1]\<rparr> in
                      case search_emails (''from:'' @ sender) 1 of
                        Inl e \<Rightarrow> (params, eng')
                      | Inr [] \<Rightarrow> (params, eng')
                      | Inr (last_email # _) \<Rightarrow>
                          (AList.update ''email_id'' (dict_get last_email ''id'')
                             (AList.update ''inferred_email'' (PDict last_email) params),
                           eng')))
              else (params, eng)))
      else (params, eng))"

text \<open>\<^verbatim>\<open>_infer_email_params\<close>: the lookup, then the seven filter rules in the order of
  the source. A rule that raises ends the call; the lookup it has issued stays issued.\<close>

definition infer_email_params ::
  "ContextInferenceEngine \<Rightarrow> string \<Rightarrow> pydict \<Rightarrow> (error + pydict) \<times> ContextInferenceEngine" where
  "infer_email_params eng cmd params =
     (let (params0, eng') = lookup_last_email eng cmd params;
          days_match = re_search_last ''day'' cmd;
          weeks_match = re_search_last ''week'' cmd;
          months_match = re_search_last ''month'' cmd
      in
      (bind_err (append_query_if (sublist ''unread'' cmd) ''is:unread'' params0) (\<lambda>p1.
       bind_err (append_query_if (sublist ''important'' cmd \<or> sublist ''priority'' cmd)
                   ''is:important'' p1) (\<lambda>p2.
       bind_err (case days_match of
                   Some days \<Rightarrow> append_query (''newer_than:'' @ days @ ''d'') p2
                 | None \<Rightarrow> Inr p2) (\<lambda>p3.
       bind_err (case weeks_match of
                   Some weeks \<Rightarrow>
                     append_query (''newer_than:'' @ str_of_nat (int_of_digits weeks * 7) @ ''d'') p3
                 | None \<Rightarrow> Inr p3) (\<lambda>p4.
       bind_err (case months_match of
                   Some months \<Rightarrow>
                     append_query (''newer_than:'' @ str_of_nat (int_of_digits months * 30) @ ''d'') p4
                 | None \<Rightarrow> Inr p4) (\<lambda>p5.
       bind_err (append_query_if (sublist ''last week'' cmd \<and> weeks_match = None)
                   ''newer_than:7d'' p5) (\<lambda>p6.
       append_query_if (sublist ''last month'' cmd \<and> months_match = None)
                   ''newer_than:30d'' p6)))))),
       eng'))"

text \<open>The attendee addresses of one event-like value:
  \<^verbatim>\<open>[a.get('email') for a in ev['attendees'] if 'email' in a]\<close> once
  \<^verbatim>\<open>'attendees' in ev\<close> holds, and no address otherwise.\<close>

definition value_attendees :: "pyval \<Rightarrow> error + pyval list" where
  "value_attendees ev =
     bind_err (py_in ''attendees'' ev) (\<lambda>present.
       if present then
         bind_err (py_subscript ev ''attendees'') (\<lambda>att.
         bind_err (py_iter att) attendee_emails)
       else Inr [])"

definition event_attendees :: "refval \<Rightarrow> error + pyval list" where
  "event_attendees last_event =
     (if ref_truthy last_event then
        bind_err (ref_in ''attendees'' last_event) (\<lambda>present.
          if present then
            bind_err (ref_subscript last_event ''attendees'') (\<lambda>att.
            bind_err (py_iter att) attendee_emails)
          else Inr [])
      else Inr [])"

text \<open>The loop over the events of the last calendar command.\<close>

fun events_attendees :: "pyval list \<Rightarrow> error + pyval list" where
  "events_attendees [] = Inr []"
| "events_attendees (event # rest) =
     bind_err (value_attendees event) (\<lambda>es.
     bind_err (events_attendees rest) (\<lambda>more. Inr (es @ more)))"

text \<open>Lines 165 to 173 of \<^verbatim>\<open>_infer_attendees\<close>: the inferred addresses go into
  \<^verbatim>\<open>to\<close>, after what it holds already.\<close>

definition merge_recipients :: "pyval list \<Rightarrow> pydict \<Rightarrow> pydict" where
  "merge_recipients attendees params =
     (if attendees \<noteq> [] then
        (let params1 =
           (case map_of params ''to'' of
              None \<Rightarrow> AList.update ''to'' (PList attendees) params
            | Some t \<Rightarrow>
                if \<not> truthy t then AList.update ''to'' (PList attendees) params
                else (case t of
                        PList ts \<Rightarrow> AList.update ''to'' (PList (ts @ attendees)) params
                      | _ \<Rightarrow> AList.update ''to'' (PList (t # attendees)) params))
         in AList.update ''inferred_attendees'' (PBool True) params1)
      else params)"

definition infer_attendees ::
  "ContextInferenceEngine \<Rightarrow> string \<Rightarrow> pydict \<Rightarrow> error + pydict" where
  "infer_attendees eng cmd params =
     bind_err
       (if sublist ''meeting attendees'' cmd \<or> sublist ''event attendees'' cmd then
          (case session eng of
             None \<Rightarrow> Inr []
           | Some s \<Rightarrow>
               event_attendees
                 (ref_or (get_reference s ''next_meeting'') (get_reference s ''last_event'')))
        else if sublist ''the attendees'' cmd \<or> sublist ''all attendees'' cmd then
          (case session eng of
             None \<Rightarrow> Inr []
           | Some s \<Rightarrow>
               (case get_last_command s of
                  None \<Rightarrow> Inr []
                | Some last_cmd \<Rightarrow>
                    if cr_service last_cmd = ''calendar'' then
                      (case cr_result last_cmd of
                         PList events \<Rightarrow> events_attendees events
                       | _ \<Rightarrow> Inr [])
                    else Inr []))
        else Inr [])
       (\<lambda>attendees. Inr (merge_recipients attendees params))"

text \<open>The three pronoun branches of \<^verbatim>\<open>_resolve_pronouns\<close> share one shape: read a
  reference and, when it is true, store its \<^verbatim>\<open>id\<close> and the reference itself. A true
  reference that is not a dictionary has no \<^verbatim>\<open>get\<close>.\<close>

definition resolve_entity :: "refval \<Rightarrow> string \<Rightarrow> string \<Rightarrow> pydict \<Rightarrow> error + pydict" where
  "resolve_entity r id_key inferred_key params =
     (if ref_truthy r then
        (case r of
           RVal (PDict d) \<Rightarrow>
             Inr (AList.update inferred_key (PDict d)
                    (AList.update id_key (dict_get d ''id'') params))
         | _ \<Rightarrow> Inl AttributeError)
      else Inr params)"

text \<open>\<^verbatim>\<open>f" {command} "\<close>.\<close>

definition padded :: "string \<Rightarrow> string" where
  "padded cmd = '' '' @ cmd @ '' ''"

text \<open>The test for a bare \<^verbatim>\<open>it\<close>, \<^verbatim>\<open>that\<close> or \<^verbatim>\<open>this\<close>: the whole command, or a
  word of it between spaces.\<close>

definition bare_pronoun :: "string \<Rightarrow> bool" where
  "bare_pronoun cmd =
     (cmd \<in> set [''it'', ''that'', ''this''] \<or> sublist '' it '' (padded cmd)
      \<or> sublist '' that '' (padded cmd) \<or> sublist '' this '' (padded cmd))"

text \<open>Lines 183 to 202 of \<^verbatim>\<open>_resolve_pronouns\<close>: the entity a bare pronoun stands
  for, by intent family.\<close>

definition pronoun_entity :: "SessionContext \<Rightarrow> string \<Rightarrow> pydict \<Rightarrow> error + pydict" where
  "pronoun_entity s int_name params =
     (if int_name \<in> set [''share_file'', ''download_file'', ''delete_file''] then
        resolve_entity (get_reference s ''last_file'') ''file_id'' ''inferred_file'' params
      else if int_name \<in> set [''read_email'', ''delete_email''] then
        resolve_entity (get_reference s ''last_email'') ''email_id'' ''inferred_email'' params
      else if int_name \<in> set [''update_event'', ''delete_event''] then
        resolve_entity (get_reference s ''last_event'') ''event_id'' ''inferred_event'' params
      else Inr params)"

text \<open>Lines 205 to 222 of \<^verbatim>\<open>_resolve_pronouns\<close>: \<^verbatim>\<open>them\<close> stands for the attendees of
  the next meeting or the last event.\<close>

definition them_recipients :: "SessionContext \<Rightarrow> string \<Rightarrow> pydict \<Rightarrow> error + pydict" where
  "them_recipients s int_name params =
     bind_err
       (event_attendees
          (ref_or (get_reference s ''next_meeting'') (get_reference s ''last_event'')))
       (\<lambda>attendees.
          if attendees \<noteq> [] then
            if int_name = ''send_email'' then
              Inr (AList.update ''to'' (PList attendees) params)
            else if int_name = ''share_file'' then
              Inr (AList.update ''email''
                     (case attendees of [a] \<Rightarrow> a | _ \<Rightarrow> PList attendees)
                     (AList.update ''emails'' (PList attendees) params))
            else Inr params
          else Inr params)"

definition resolve_pronouns ::
  "ContextInferenceEngine \<Rightarrow> string \<Rightarrow> string \<Rightarrow> pydict \<Rightarrow> error + pydict" where
  "resolve_pronouns eng cmd int_name params =
     (case session eng of
        None \<Rightarrow> Inr params
      | Some s \<Rightarrow>
          bind_err
            (if bare_pronoun cmd then pronoun_entity s int_name params else Inr params)
            (\<lambda>params1.
               if sublist '' them '' (padded cmd) \<or> prefix ''them'' cmd
               then them_recipients s int_name params1
               else Inr params1))"

text \<open>\<^verbatim>\<open>infer_parameters\<close> works on a copy of the parameters and returns it. The
  engine is returned beside the outcome: its session and its log of lookups are as the
  call leaves them, also when a rule raises.\<close>

definition infer_parameters ::
  "ContextInferenceEngine \<Rightarrow> string \<Rightarrow> string \<Rightarrow> pydict
     \<Rightarrow> (error + pydict) \<times> ContextInferenceEngine" where
  "infer_parameters eng cmd int_name params =
     (let command_lower = lower cmd;
          (p1, eng1) =
            (if int_name \<in> set [''search_event'', ''update_event'', ''delete_event'', ''list_events'']
             then infer_meeting_params eng command_lower params
             else (params, eng));
          (r2, eng2) =
            (if int_name \<in> set [''send_email'', ''read_email'', ''delete_email'', ''search_email'']
             then infer_email_params eng1 command_lower p1
             else (Inr p1, eng1))
      in
      (bind_err r2 (\<lambda>p2.
       bind_err (if int_name = ''send_email'' \<and> sublist ''attendees'' command_lower
                 then infer_attendees eng2 command_lower p2 else Inr p2) (\<lambda>p3.
       resolve_pronouns eng2 command_lower int_name p3)),
       eng2))"

section \<open>The filter tokens of a mail command, in the words of the specification\<close>





section \<open>Example data\<close>

text \<open>A language-model answer that asks for a workflow and lists no operation.\<close>

definition empty_plan :: MultiServiceIntent where
  "empty_plan = \<lparr>multi_service = True, services = [], operations = [],
                  reasoning = ''nothing to do'', confidence = 1\<rparr>"

text \<open>One mail operation of a workflow.\<close>

definition mail_operation :: pydict where
  "mail_operation = [(''service'', PStr ''gmail''), (''intent'', PStr ''send_email'')]"

text \<open>An answer that asks for a workflow of one mail operation.\<close>

definition mail_plan :: MultiServiceIntent where
  "mail_plan =
     \<lparr>multi_service = True, services = [''gmail''],
      operations = [mail_operation],
      reasoning = ''send one mail'', confidence = 1\<rparr>"

text \<open>Fifteen \<^verbatim>\<open>record_action\<close> calls, numbered by their clock reading.\<close>

definition fifteen_calls :: "record_call list" where
  "fifteen_calls =
     map (\<lambda>n. (n, SEND_EMAIL, ''msg'', ''gmail'', [], None))
       [0, 1, 2, 3, 4, 5, 6, 7, 8, 9, 10, 11, 12, 13, 14]"

text \<open>Two command records: a calendar listing that failed after a partial answer, and a
  successful mail search.\<close>

definition cal_fail :: CommandResult where
  "cal_fail = \<lparr>cr_command = ''show my meetings'', cr_timestamp = 1, cr_service = ''calendar'',
                cr_intent = ''list_events'', cr_parameters = [],
                cr_result = PList [PDict [(''id'', PStr ''e1'')]], cr_success = False,
                cr_error = Some ''partial failure''\<rparr>"

definition mail_ok :: CommandResult where
  "mail_ok = \<lparr>cr_command = ''find mail'', cr_timestamp = 2, cr_service = ''gmail'',
               cr_intent = ''search_email'', cr_parameters = [],
               cr_result = PList [PDict [(''id'', PStr ''m1'')]], cr_success = True,
               cr_error = None\<rparr>"

text \<open>Two workflow steps that depend on step 0; the first already names its files.\<close>

definition share_step :: WorkflowStep where
  "share_step = \<lparr>step_service = ''drive'', step_intent = ''share_file'',
                  step_parameters = [(''ids'', PList [PStr ''f1''])], depends_on = Some 0,
                  step_result = None, status = ''pending''\<rparr>"

definition mail_step :: WorkflowStep where
  "mail_step = \<lparr>step_service = ''gmail'', step_intent = ''send_email'',
                 step_parameters = [(''subject'', PStr ''notes'')], depends_on = Some 0,
                 step_result = None, status = ''pending''\<rparr>"

text \<open>An engine with a fresh session and a calendar that answers every lookup with one
  event; and the same engine after an earlier command left a \<^verbatim>\<open>last_event\<close>.\<close>

definition standup :: pydict where
  "standup = [(''id'', PStr ''evt1''), (''summary'', PStr ''Standup'')]"

definition demo_engine :: ContextInferenceEngine where
  "demo_engine =
     \<lparr>session = Some (SessionContext_init ''user'' 0), gmail_service = None,
      calendar_service = Some (\<lambda>days_ahead max_results. Inr [standup]), calls = []\<rparr>"

section \<open>Safety and undo engine: properties\<close>

subsection \<open>Confirmation policy\<close>

text \<open>
  C1, as the claim states it, fails: \<^verbatim>\<open>send_email\<close> is in the destructive list, so
  \<^verbatim>\<open>requires_confirmation("send_email", parameters)\<close> is true with three recipients
  too.
\<close>

theorem requires_confirmation_send_email_three_counterexample:
  "requires_confirmation ''send_email''
     [(''to'', PList [PStr ''a@corp.com'', PStr ''b@corp.com'', PStr ''c@corp.com''])]
   = Inr True"
  by (simp add: requires_confirmation_def is_destructive_def destructive_intents_def)

text \<open>
  C1, amended: \<^verbatim>\<open>requires_confirmation("send_email", parameters)\<close> is true for every
  \<^verbatim>\<open>parameters\<close>, with four recipients and with three alike; in general
  \<^verbatim>\<open>requires_confirmation\<close> returns what \<^verbatim>\<open>is_destructive\<close> returns, and it is true
  whenever the intent is destructive, or is send-mail with more than three recipients, or
  is share-file with a non-empty \<^verbatim>\<open>email\<close> that lacks the internal domain suffix.
\<close>

theorem requires_confirmation_destructive:
  "requires_confirmation ''send_email'' params = Inr True
   \<and> requires_confirmation int_name params = Inr (is_destructive int_name)
   \<and> (is_destructive int_name
        \<or> (int_name = ''send_email''
            \<and> (\<exists>rs. map_of params ''to'' = Some (PList rs) \<and> length rs > 3))
        \<or> (int_name = ''share_file''
            \<and> (\<exists>e. map_of params ''email'' = Some (PStr e) \<and> e \<noteq> []
                   \<and> \<not> suffix ''@example.com'' (lower e)))
       \<longrightarrow> requires_confirmation int_name params = Inr True)"
  by (auto simp: requires_confirmation_def is_destructive_def destructive_intents_def)

theorem requires_confirmation_destructive_witness:
  "is_destructive ''delete_file''
   \<and> requires_confirmation ''delete_file'' [] = Inr True
   \<and> requires_confirmation ''send_email''
        [(''to'', PList [PStr ''a@corp.com'', PStr ''b@corp.com'', PStr ''c@corp.com'',
                         PStr ''d@corp.com''])] = Inr True"
  using requires_confirmation_destructive
          [of "[(''to'', PList [PStr ''a@corp.com'', PStr ''b@corp.com'', PStr ''c@corp.com'',
                                PStr ''d@corp.com''])]" "''delete_file''"]
    requires_confirmation_destructive [of "[]" "''delete_file''"]
  by (simp add: is_destructive_def destructive_intents_def)

subsection \<open>The bounded undo stack\<close>

lemma evict_oldest:
  assumes "length ys \<le> Suc n"
  shows "(if length ys > n then tl ys else ys) = drop (length ys - n) ys"
proof (cases "length ys = Suc n")
  case True
  then have "length ys - n = Suc 0" by simp
  then show ?thesis using True by (simp add: drop_Suc)
next
  case False
  with assms have "length ys - n = 0" by simp
  then show ?thesis using False assms by simp
qed

lemma keep_last_drop:
  "drop (length (drop (length xs - n) xs) - n) (drop (length xs - n) xs) = drop (length xs - n) xs"
  by simp

lemma keep_last_snoc:
  "drop (length (drop (length xs - n) xs @ [a]) - n) (drop (length xs - n) xs @ [a])
     = drop (length (xs @ [a]) - n) (xs @ [a])"
proof (cases "length xs < n")
  case True
  then show ?thesis by simp
next
  case False
  then have e: "length (xs @ [a]) - n = Suc (length xs - n)" by simp
  have l: "length (drop (length xs - n) xs @ [a]) - n = Suc 0" using False by simp
  have d: "length (drop (length xs - n) xs) = n" using False by simp
  have "drop (Suc 0) (drop (length xs - n) xs @ [a])
          = drop (Suc 0) (drop (length xs - n) xs) @ drop (Suc 0 - n) [a]"
    unfolding drop_append d ..
  also have "drop (Suc 0) (drop (length xs - n) xs) = drop (Suc (length xs - n)) xs"
    by simp
  finally have "drop (Suc 0) (drop (length xs - n) xs @ [a])
          = drop (Suc (length xs - n)) xs @ drop (Suc 0 - n) [a]" .
  moreover have "drop (Suc (length xs - n)) (xs @ [a])
          = drop (Suc (length xs - n)) xs @ drop (Suc 0 - n) [a]"
    using False by (simp add: Suc_diff_le)
  ultimately show ?thesis unfolding e l by simp
qed

lemma record_call_stack:
  assumes "length (undo_stack m) \<le> max_undo_actions m"
  shows "undo_stack (record_call m c) =
           drop (length (undo_stack m @ [action_of c]) - max_undo_actions m)
                (undo_stack m @ [action_of c])"
    and "max_undo_actions (record_call m c) = max_undo_actions m"
proof -
  define ys where "ys = undo_stack m @ [action_of c]"
  have "length ys \<le> Suc (max_undo_actions m)" using assms by (simp add: ys_def)
  from evict_oldest[OF this]
  have "(if length ys > max_undo_actions m then tl ys else ys)
          = drop (length ys - max_undo_actions m) ys" .
  moreover have "undo_stack (record_call m c)
          = (if length ys > max_undo_actions m then tl ys else ys)"
    unfolding ys_def
    by (simp add: record_call_def record_action_def action_of_def Let_def split: prod.splits)
  ultimately show "undo_stack (record_call m c) =
           drop (length (undo_stack m @ [action_of c]) - max_undo_actions m)
                (undo_stack m @ [action_of c])"
    unfolding ys_def by simp
  show "max_undo_actions (record_call m c) = max_undo_actions m"
    by (simp add: record_call_def record_action_def Let_def split: prod.splits)
qed

lemma record_actions_snoc: "record_actions m (cs @ [c]) = record_call (record_actions m cs) c"
  by (simp add: record_actions_def)

lemma record_actions_fresh:
  "max_undo_actions (record_actions (SafetyManager_init dr) cs) = 10 \<and>
   undo_stack (record_actions (SafetyManager_init dr) cs) =
     drop (length cs - 10) (map action_of cs)"
proof (induction cs rule: rev_induct)
  case Nil
  show ?case by (simp add: record_actions_def SafetyManager_init_def)
next
  case (snoc c cs)
  let ?m = "record_actions (SafetyManager_init dr) cs"
  have mx: "max_undo_actions ?m = 10" using snoc by simp
  have st: "undo_stack ?m = drop (length (map action_of cs) - 10) (map action_of cs)"
    using snoc by simp
  have len: "length (undo_stack ?m) \<le> max_undo_actions ?m" unfolding st mx by simp
  have "undo_stack (record_call ?m c) =
          drop (length (map action_of cs @ [action_of c]) - 10) (map action_of cs @ [action_of c])"
    unfolding record_call_stack(1)[OF len] mx st by (rule keep_last_snoc)
  then show ?case
    unfolding record_actions_snoc using record_call_stack(2)[OF len, of c] mx by simp
qed

text \<open>
  C4: on a fresh manager, after any sequence of \<^verbatim>\<open>record_action\<close> calls the undo stack
  holds at most 10 actions, and they are the most recent ones in insertion order (the
  oldest were evicted first); after 15 calls it holds exactly the last 10.
\<close>

theorem undo_stack_bounded:
  "length (get_undo_stack (record_actions (SafetyManager_init dr) cs)) \<le> 10
   \<and> get_undo_stack (record_actions (SafetyManager_init dr) cs)
       = map action_of (drop (length cs - 10) cs)
   \<and> (length cs = 15 \<longrightarrow>
        length (get_undo_stack (record_actions (SafetyManager_init dr) cs)) = 10
        \<and> get_undo_stack (record_actions (SafetyManager_init dr) cs)
            = map action_of (drop 5 cs))"
  using record_actions_fresh[of dr cs]
  by (auto simp: get_undo_stack_def drop_map)

theorem undo_stack_bounded_witness:
  "length fifteen_calls = 15
   \<and> length (get_undo_stack (record_actions (SafetyManager_init False) fifteen_calls)) = 10
   \<and> map timestamp (get_undo_stack (record_actions (SafetyManager_init False) fifteen_calls))
       = [5, 6, 7, 8, 9, 10, 11, 12, 13, 14]"
proof -
  have len: "length fifteen_calls = 15" by (simp add: fifteen_calls_def)
  have "get_undo_stack (record_actions (SafetyManager_init False) fifteen_calls)
          = map action_of (drop 5 fifteen_calls)"
    and "length (get_undo_stack (record_actions (SafetyManager_init False) fifteen_calls)) = 10"
    using undo_stack_bounded[of False fifteen_calls] len by simp_all
  then show ?thesis using len by (simp add: fifteen_calls_def action_of_def)
qed

section \<open>Workflow engine: properties\<close>

text \<open>
  C2, as the claim states it, fails: an answer with \<^verbatim>\<open>multi_service = true\<close> and an
  empty operations list is returned, not \<^verbatim>\<open>None\<close>.
\<close>

theorem detect_multi_service_empty_operations_counterexample:
  "operations empty_plan = []
   \<and> detect_multi_service (\<lambda>m. Some empty_plan) ''email the meeting attendees''
       = Some empty_plan"
  by (simp add: detect_multi_service_def empty_plan_def)

text \<open>
  C2, amended: \<^verbatim>\<open>detect_multi_service\<close> returns the collaborator's answer exactly when
  that answer has \<^verbatim>\<open>multi_service = true\<close>, whatever its operations list; it returns
  \<^verbatim>\<open>None\<close> exactly when the collaborator fails or answers \<^verbatim>\<open>multi_service = false\<close>.
\<close>

theorem detect_multi_service_flag_only:
  "(detect_multi_service llm user_message = Some i)
      = (llm user_message = Some i \<and> multi_service i)
   \<and> (detect_multi_service llm user_message = None)
      = (llm user_message = None \<or> (\<exists>j. llm user_message = Some j \<and> \<not> multi_service j))"
  by (auto simp: detect_multi_service_def split: option.splits)

theorem detect_multi_service_flag_only_witness:
  "detect_multi_service (\<lambda>m. Some mail_plan) ''email the meeting attendees'' = Some mail_plan
   \<and> detect_multi_service (\<lambda>m. Some (empty_plan\<lparr>multi_service := False\<rparr>))
         ''email the meeting attendees'' = None
   \<and> detect_multi_service (\<lambda>m. None) ''email the meeting attendees'' = None"
  using detect_multi_service_flag_only
          [of "\<lambda>m. Some mail_plan" "''email the meeting attendees''" mail_plan]
    detect_multi_service_flag_only
          [of "\<lambda>m. Some (empty_plan\<lparr>multi_service := False\<rparr>)" "''email the meeting attendees''"]
    detect_multi_service_flag_only [of "\<lambda>m. None" "''email the meeting attendees''"]
  by (simp add: empty_plan_def mail_plan_def)

text \<open>
  C8, as the claim states it, fails: a step that already has an \<^verbatim>\<open>ids\<close> parameter gets
  no \<^verbatim>\<open>items\<close> from a list-valued dependency.
\<close>

theorem inject_context_ids_counterexample:
  "depends_on share_step = Some 0
   \<and> map_of (step_parameters
        (fst (inject_context share_step [0 \<mapsto> PList [PStr ''a'', PStr ''b'']]))) ''items''
       = None"
  by (simp add: inject_context_def share_step_def has_key_def)

text \<open>
  C8, amended: for a step whose \<^verbatim>\<open>depends_on\<close> index is in the previous results,
  a list-valued dependency result is attached verbatim as \<^verbatim>\<open>items\<close> unless the step
  already has an \<^verbatim>\<open>ids\<close> parameter; and the \<^verbatim>\<open>id\<close> of a dictionary-valued result is
  copied into the step's parameters unless an \<^verbatim>\<open>id\<close> parameter is already present.
\<close>

theorem inject_context_propagates:
  assumes "depends_on step = Some k"
  shows "(previous_results k = Some (PList xs) \<and> \<not> has_key ''ids'' (step_parameters step)
            \<longrightarrow> snd (inject_context step previous_results) = None
               \<and> map_of (step_parameters (fst (inject_context step previous_results))) ''items''
                   = Some (PList xs))
         \<and> (previous_results k = Some (PDict d) \<and> map_of d ''id'' = Some v
            \<longrightarrow> map_of (step_parameters (fst (inject_context step previous_results))) ''id''
                   = (if has_key ''id'' (step_parameters step)
                      then map_of (step_parameters step) ''id'' else Some v))"
  using assms
  by (auto simp: inject_context_def set_param_def has_key_def update_conv' Let_def
           split: option.splits pyval.splits sum.splits)

theorem inject_context_propagates_witness:
  "map_of (step_parameters
        (fst (inject_context mail_step [0 \<mapsto> PList [PStr ''a'', PStr ''b'']]))) ''items''
     = Some (PList [PStr ''a'', PStr ''b''])
   \<and> map_of (step_parameters
        (fst (inject_context mail_step [0 \<mapsto> PDict [(''id'', PStr ''e1'')]]))) ''id''
     = Some (PStr ''e1'')"
  using inject_context_propagates[of mail_step 0 "[0 \<mapsto> PList [PStr ''a'', PStr ''b'']]" "[PStr ''a'', PStr ''b'']"]
     inject_context_propagates[of mail_step 0 "[0 \<mapsto> PDict [(''id'', PStr ''e1'')]]" _ "[(''id'', PStr ''e1'')]" "PStr ''e1''"]
  by (simp add: mail_step_def has_key_def)

section \<open>Session memory: properties\<close>

lemma get_set_reference:
  "get_reference (set_reference k v s) k' = (if k' = k then v else get_reference s k')"
  by (simp add: get_reference_def set_reference_def update_conv')

lemma history_set_reference [simp]: "history (set_reference k v s) = history s"
  by (simp add: set_reference_def)

lemma get_store_result:
  "k \<noteq> all_key \<Longrightarrow> k \<notin> set first_keys \<Longrightarrow>
     get_reference (store_result all_key first_keys res s) k = get_reference s k"
proof -
  have fold: "\<And>x s'. k \<notin> set first_keys \<Longrightarrow>
      get_reference (foldl (\<lambda>s' k. set_reference k (RVal x) s') s' first_keys) k
        = get_reference s' k"
    by (induction first_keys) (auto simp: get_set_reference)
  assume "k \<noteq> all_key" "k \<notin> set first_keys"
  then show ?thesis
    by (auto simp: store_result_def Let_def get_set_reference fold
             split: pyval.splits list.splits)
qed

lemma history_store_result [simp]: "history (store_result a fs res s) = history s"
proof -
  have "\<And>x s'. history (foldl (\<lambda>s' k. set_reference k (RVal x) s') s' fs) = history s'"
    by (induction fs) auto
  then show ?thesis by (auto simp: store_result_def Let_def split: pyval.splits list.splits)
qed

lemma update_references_last_command:
  "get_reference (update_references s c) ''last_command'' = RCmd c"
  by (simp add: update_references_def Let_def get_store_result get_set_reference)

lemma history_update_references [simp]: "history (update_references s c) = history s"
  by (simp add: update_references_def Let_def)

lemma add_record_eq: "add_record s r = update_references (s\<lparr>history := history s @ [r]\<rparr>) r"
proof -
  have eq: "\<lparr>cr_command = cr_command r, cr_timestamp = cr_timestamp r,
         cr_service = cr_service r, cr_intent = cr_intent r,
         cr_parameters = cr_parameters r, cr_result = cr_result r,
         cr_success = cr_success r, cr_error = cr_error r\<rparr> = r"
    by (cases r) simp
  show ?thesis unfolding add_record_def add_command_def Let_def eq ..
qed

lemma add_commands_snoc: "add_commands s (rs @ [r]) = add_record (add_commands s rs) r"
  by (simp add: add_commands_def)

lemma history_add_commands: "history (add_commands s rs) = history s @ rs"
  by (induction rs rule: rev_induct) (simp_all add: add_commands_def add_record_eq)

text \<open>
  C5: after any non-empty sequence of \<^verbatim>\<open>add_command\<close> calls on a fresh session,
  \<^verbatim>\<open>references["last_command"]\<close> is the record of the last call, which is also the last
  entry of the history, whatever the services, intents and success flags.
\<close>

theorem last_command_recency:
  assumes "rs \<noteq> []"
  shows "get_reference (add_commands (SessionContext_init sid now) rs) ''last_command''
           = RCmd (last rs)
         \<and> history (add_commands (SessionContext_init sid now) rs) = rs
         \<and> get_last_command (add_commands (SessionContext_init sid now) rs) = Some (last rs)"
proof -
  obtain rs' r where rs: "rs = rs' @ [r]" using assms by (metis rev_exhaust)
  have h: "history (add_commands (SessionContext_init sid now) rs) = rs"
    by (simp add: history_add_commands SessionContext_init_def)
  have "get_reference (add_commands (SessionContext_init sid now) rs) ''last_command'' = RCmd r"
    unfolding rs add_commands_snoc add_record_eq by (rule update_references_last_command)
  then show ?thesis using h assms by (simp add: rs get_last_command_def)
qed

theorem last_command_recency_witness:
  "get_reference (add_commands (SessionContext_init ''user'' 0) [cal_fail, mail_ok]) ''last_command''
     = RCmd mail_ok"
  using last_command_recency[of "[cal_fail, mail_ok]" "''user''" 0] by simp

text \<open>
  C6, as the claim states it, fails: a call with \<^verbatim>\<open>success = False\<close> stores no
  \<^verbatim>\<open>last_event\<close>, whatever its result.
\<close>

theorem last_event_unsuccessful_counterexample:
  "get_reference
     (add_command (SessionContext_init ''user'' 0) 1 ''show my meetings'' ''calendar''
        ''list_events'' [] (PList [PDict [(''id'', PStr ''e1'')]]) False None)
     ''last_event'' = RVal PNone"
  by (simp add: add_command_def update_references_def SessionContext_init_def Let_def
        get_reference_def set_reference_def)

text \<open>
  C6, amended: for every successful \<^verbatim>\<open>add_command\<close> call with service calendar and
  intent \<^verbatim>\<open>list_events\<close> or \<^verbatim>\<open>search_event\<close> whose result is a non-empty list,
  \<^verbatim>\<open>references["last_event"]\<close> afterwards is the first element of that list.
\<close>

theorem last_event_first_element:
  assumes "int_name = ''list_events'' \<or> int_name = ''search_event''"
  shows "get_reference
           (add_command s now cmd ''calendar'' int_name params (PList (x # xs)) True err)
           ''last_event'' = RVal x"
  using assms
  by (auto simp: add_command_def update_references_def Let_def store_result_def
        get_set_reference)

theorem last_event_first_element_witness:
  "get_reference
     (add_command (SessionContext_init ''user'' 0) 1 ''show my meetings'' ''calendar''
        ''list_events'' [] (PList [PDict [(''id'', PStr ''e1'')], PDict [(''id'', PStr ''e2'')]])
        True None)
     ''last_event'' = RVal (PDict [(''id'', PStr ''e1'')])"
  using last_event_first_element[of "''list_events''" "SessionContext_init ''user'' 0" 1
          "''show my meetings''" "[]" "PDict [(''id'', PStr ''e1'')]" "[PDict [(''id'', PStr ''e2'')]]" None]
  by simp

section \<open>Reference resolver: properties\<close>

lemma option_case_same: "(case x of None \<Rightarrow> a | Some r \<Rightarrow> a) = a"
  by (cases x) simp_all

lemma resolve_reference_session: "snd (resolve_reference s inp) = s"
  unfolding resolve_reference_def Let_def
  by (simp only: if_distrib[of snd] option.case_distrib[of snd] snd_conv if_cancel option_case_same
       cong: if_cong option.case_cong)

text \<open>
  C9: \<^verbatim>\<open>resolve_reference\<close> leaves the session as it found it, and a second call with
  the same text on the session the first call returned gives the same pair.
\<close>

theorem resolve_reference_pure:
  "(let (r1, s1) = resolve_reference s inp;
        (r2, s2) = resolve_reference s1 inp
    in r1 = r2 \<and> s1 = s \<and> s2 = s)"
  using resolve_reference_session[of s inp] by (simp add: case_prod_beta)

theorem resolve_reference_pure_witness:
  "resolve_reference (add_commands (SessionContext_init ''user'' 0) [mail_ok]) ''open the first one''
     = ((Some ''gmail'', RVal (PDict [(''id'', PStr ''m1'')])),
        add_commands (SessionContext_init ''user'' 0) [mail_ok])"
proof -
  have l: "lower ''open the first one'' = ''open the first one''" by code_simp
  have f: "fst (resolve_reference (add_commands (SessionContext_init ''user'' 0) [mail_ok])
             ''open the first one'') = (Some ''gmail'', RVal (PDict [(''id'', PStr ''m1'')]))"
    by (simp add: resolve_reference_def l positional_def get_last_command_def
          history_add_commands SessionContext_init_def mail_ok_def sublist_code)
  show ?thesis
    using resolve_reference_pure
            [of "add_commands (SessionContext_init ''user'' 0) [mail_ok]" "''open the first one''"] f
    by (simp add: case_prod_beta prod_eq_iff)
qed

lemma resolve_reference_email:
  assumes "list_ex (\<lambda>phrase. sublist phrase (lower inp)) [''that email'', ''the email'', ''this email'']
           \<or> sublist ''last email'' (lower inp)"
  shows "fst (resolve_reference s inp) = (Some ''email'', get_reference s ''last_email'')"
proof (cases "list_ex (\<lambda>phrase. sublist phrase (lower inp)) [''that email'', ''the email'', ''this email'']")
  case True
  show ?thesis unfolding resolve_reference_def Let_def by (simp only: True if_True fst_conv)
next
  case False
  then have l: "sublist ''last email'' (lower inp)" using assms by blast
  show ?thesis unfolding resolve_reference_def Let_def by (simp only: False l if_True if_False fst_conv)
qed

lemma resolve_reference_not_email:
  assumes "\<not> list_ex (\<lambda>phrase. sublist phrase (lower inp)) [''that email'', ''the email'', ''this email'']"
    and "\<not> sublist ''last email'' (lower inp)"
  shows "fst (resolve_reference s inp) =
     (if list_ex (\<lambda>phrase. sublist phrase (lower inp))
                [''that meeting'', ''the meeting'', ''this meeting'']
      then (Some ''event'', get_reference s ''last_event'')
      else if list_ex (\<lambda>phrase. sublist phrase (lower inp)) [''next meeting'', ''upcoming meeting'']
      then (Some ''event'', get_reference s ''next_meeting'')
      else if list_ex (\<lambda>phrase. sublist phrase (lower inp)) [''that file'', ''the file'', ''this file'']
      then (Some ''file'', get_reference s ''last_file'')
      else fst (resolve_reference s inp))"
  unfolding resolve_reference_def Let_def
  by (simp only: assms if_False if_distrib[of fst] fst_conv if_cancel cong: if_cong)

lemma pronoun_no_phrase:
  assumes "t \<in> set [''it'', ''that'', ''this'']"
  shows "\<not> list_ex (\<lambda>phrase. sublist phrase t) [''that email'', ''the email'', ''this email'']"
    and "\<not> sublist ''last email'' t"
    and "\<not> list_ex (\<lambda>phrase. sublist phrase t) [''that meeting'', ''the meeting'', ''this meeting'']"
    and "\<not> list_ex (\<lambda>phrase. sublist phrase t) [''next meeting'', ''upcoming meeting'']"
    and "\<not> list_ex (\<lambda>phrase. sublist phrase t) [''that file'', ''the file'', ''this file'']"
  using assms by (auto simp: sublist_code)

lemma resolve_reference_pronoun:
  assumes "lower inp \<in> set [''it'', ''that'', ''this'']"
    and "get_last_command s = Some c"
  shows "cr_service c = ''gmail''
           \<Longrightarrow> fst (resolve_reference s inp) = (Some ''email'', get_reference s ''last_email'')"
    and "cr_service c = ''calendar''
           \<Longrightarrow> fst (resolve_reference s inp) = (Some ''event'', get_reference s ''last_event'')"
    and "cr_service c = ''drive''
           \<Longrightarrow> fst (resolve_reference s inp) = (Some ''file'', get_reference s ''last_file'')"
proof -
  note np = pronoun_no_phrase[OF assms(1)]
  have r: "fst (resolve_reference s inp) =
             fst (case (if cr_service c = ''gmail''
                      then Some (Some ''email'', get_reference s ''last_email'')
                      else if cr_service c = ''calendar''
                      then Some (Some ''event'', get_reference s ''last_event'')
                      else if cr_service c = ''drive''
                      then Some (Some ''file'', get_reference s ''last_file'')
                      else None) of
           Some r \<Rightarrow> (r, s)
         | None \<Rightarrow>
             (case (if sublist ''first one'' (lower inp) \<or> sublist ''first'' (lower inp)
                    then positional s 0 else None) of
                Some r \<Rightarrow> (r, s)
              | None \<Rightarrow>
                  (case (if sublist ''second one'' (lower inp) \<or> sublist ''second'' (lower inp)
                         then positional s 1 else None) of
                     Some r \<Rightarrow> (r, s)
                   | None \<Rightarrow> ((None, RVal PNone), s))))"
    unfolding resolve_reference_def Let_def
    by (simp only: np assms if_True if_False option.case)
  show "cr_service c = ''gmail''
           \<Longrightarrow> fst (resolve_reference s inp) = (Some ''email'', get_reference s ''last_email'')"
    unfolding r by simp
  show "cr_service c = ''calendar''
           \<Longrightarrow> fst (resolve_reference s inp) = (Some ''event'', get_reference s ''last_event'')"
    unfolding r by simp
  show "cr_service c = ''drive''
           \<Longrightarrow> fst (resolve_reference s inp) = (Some ''file'', get_reference s ''last_file'')"
    unfolding r by simp
qed

lemma get_reference_absent:
  "map_of (references s) k = None \<Longrightarrow> get_reference s k = RVal PNone"
  by (simp add: get_reference_def)


text \<open>
  C10: when a reference phrase matches and the session has no entry in the slot the phrase
  reads, \<^verbatim>\<open>resolve_reference\<close> returns the matched kind with \<^verbatim>\<open>None\<close> as the entity,
  never \<^verbatim>\<open>(None, None)\<close>. This holds in every branch that reads a slot: the email
  phrases and \<^verbatim>\<open>last_email\<close> (as for the text \<^verbatim>\<open>"that email"\<close>), the meeting phrases and
  \<^verbatim>\<open>last_event\<close>, the next-meeting phrases and \<^verbatim>\<open>next_meeting\<close>, the file phrases and
  \<^verbatim>\<open>last_file\<close>, and a bare it/that/this after a mail, calendar or file-storage command.
\<close>

theorem resolve_reference_absent_slot:
  "(map_of (references s) ''last_email'' = None
      \<longrightarrow> fst (resolve_reference s ''that email'') = (Some ''email'', RVal PNone))
   \<and> ((list_ex (\<lambda>phrase. sublist phrase (lower inp)) [''that email'', ''the email'', ''this email'']
        \<or> sublist ''last email'' (lower inp))
       \<and> map_of (references s) ''last_email'' = None
      \<longrightarrow> fst (resolve_reference s inp) = (Some ''email'', RVal PNone))
   \<and> (\<not> list_ex (\<lambda>phrase. sublist phrase (lower inp)) [''that email'', ''the email'', ''this email'']
       \<and> \<not> sublist ''last email'' (lower inp)
       \<and> list_ex (\<lambda>phrase. sublist phrase (lower inp))
                [''that meeting'', ''the meeting'', ''this meeting'']
       \<and> map_of (references s) ''last_event'' = None
      \<longrightarrow> fst (resolve_reference s inp) = (Some ''event'', RVal PNone))
   \<and> (\<not> list_ex (\<lambda>phrase. sublist phrase (lower inp)) [''that email'', ''the email'', ''this email'']
       \<and> \<not> sublist ''last email'' (lower inp)
       \<and> \<not> list_ex (\<lambda>phrase. sublist phrase (lower inp))
                [''that meeting'', ''the meeting'', ''this meeting'']
       \<and> list_ex (\<lambda>phrase. sublist phrase (lower inp)) [''next meeting'', ''upcoming meeting'']
       \<and> map_of (references s) ''next_meeting'' = None
      \<longrightarrow> fst (resolve_reference s inp) = (Some ''event'', RVal PNone))
   \<and> (\<not> list_ex (\<lambda>phrase. sublist phrase (lower inp)) [''that email'', ''the email'', ''this email'']
       \<and> \<not> sublist ''last email'' (lower inp)
       \<and> \<not> list_ex (\<lambda>phrase. sublist phrase (lower inp))
                [''that meeting'', ''the meeting'', ''this meeting'']
       \<and> \<not> list_ex (\<lambda>phrase. sublist phrase (lower inp)) [''next meeting'', ''upcoming meeting'']
       \<and> list_ex (\<lambda>phrase. sublist phrase (lower inp)) [''that file'', ''the file'', ''this file'']
       \<and> map_of (references s) ''last_file'' = None
      \<longrightarrow> fst (resolve_reference s inp) = (Some ''file'', RVal PNone))
   \<and> (lower inp \<in> set [''it'', ''that'', ''this''] \<and> get_last_command s = Some c
      \<longrightarrow> (cr_service c = ''gmail'' \<and> map_of (references s) ''last_email'' = None
             \<longrightarrow> fst (resolve_reference s inp) = (Some ''email'', RVal PNone))
          \<and> (cr_service c = ''calendar'' \<and> map_of (references s) ''last_event'' = None
             \<longrightarrow> fst (resolve_reference s inp) = (Some ''event'', RVal PNone))
          \<and> (cr_service c = ''drive'' \<and> map_of (references s) ''last_file'' = None
             \<longrightarrow> fst (resolve_reference s inp) = (Some ''file'', RVal PNone)))"
proof -
  have l: "lower ''that email'' = ''that email''" by code_simp
  have m: "sublist ''that email'' ''that email''" by simp
  note g = get_reference_absent[of s]
  have a: "(list_ex (\<lambda>phrase. sublist phrase (lower inp)) [''that email'', ''the email'', ''this email'']
        \<or> sublist ''last email'' (lower inp))
       \<and> map_of (references s) ''last_email'' = None
      \<longrightarrow> fst (resolve_reference s inp) = (Some ''email'', RVal PNone)" for inp
    using resolve_reference_email[of inp s] g[of "''last_email''"] by metis
  have c: "map_of (references s) ''last_email'' = None
      \<longrightarrow> fst (resolve_reference s ''that email'') = (Some ''email'', RVal PNone)"
    using a[of "''that email''"] by (simp add: l m)
  have b: "\<not> list_ex (\<lambda>phrase. sublist phrase (lower inp)) [''that email'', ''the email'', ''this email'']
       \<and> \<not> sublist ''last email'' (lower inp)
       \<and> list_ex (\<lambda>phrase. sublist phrase (lower inp))
                [''that meeting'', ''the meeting'', ''this meeting'']
       \<and> map_of (references s) ''last_event'' = None
      \<longrightarrow> fst (resolve_reference s inp) = (Some ''event'', RVal PNone)"
    using resolve_reference_not_email[of inp s] g[of "''last_event''"] by metis
  have d: "\<not> list_ex (\<lambda>phrase. sublist phrase (lower inp)) [''that email'', ''the email'', ''this email'']
       \<and> \<not> sublist ''last email'' (lower inp)
       \<and> \<not> list_ex (\<lambda>phrase. sublist phrase (lower inp))
                [''that meeting'', ''the meeting'', ''this meeting'']
       \<and> list_ex (\<lambda>phrase. sublist phrase (lower inp)) [''next meeting'', ''upcoming meeting'']
       \<and> map_of (references s) ''next_meeting'' = None
      \<longrightarrow> fst (resolve_reference s inp) = (Some ''event'', RVal PNone)"
    using resolve_reference_not_email[of inp s] g[of "''next_meeting''"] by metis
  have e: "\<not> list_ex (\<lambda>phrase. sublist phrase (lower inp)) [''that email'', ''the email'', ''this email'']
       \<and> \<not> sublist ''last email'' (lower inp)
       \<and> \<not> list_ex (\<lambda>phrase. sublist phrase (lower inp))
                [''that meeting'', ''the meeting'', ''this meeting'']
       \<and> \<not> list_ex (\<lambda>phrase. sublist phrase (lower inp)) [''next meeting'', ''upcoming meeting'']
       \<and> list_ex (\<lambda>phrase. sublist phrase (lower inp)) [''that file'', ''the file'', ''this file'']
       \<and> map_of (references s) ''last_file'' = None
      \<longrightarrow> fst (resolve_reference s inp) = (Some ''file'', RVal PNone)"
    using resolve_reference_not_email[of inp s] g[of "''last_file''"] by metis
  have f: "lower inp \<in> set [''it'', ''that'', ''this''] \<and> get_last_command s = Some c
      \<longrightarrow> (cr_service c = ''gmail'' \<and> map_of (references s) ''last_email'' = None
             \<longrightarrow> fst (resolve_reference s inp) = (Some ''email'', RVal PNone))
          \<and> (cr_service c = ''calendar'' \<and> map_of (references s) ''last_event'' = None
             \<longrightarrow> fst (resolve_reference s inp) = (Some ''event'', RVal PNone))
          \<and> (cr_service c = ''drive'' \<and> map_of (references s) ''last_file'' = None
             \<longrightarrow> fst (resolve_reference s inp) = (Some ''file'', RVal PNone))"
    using resolve_reference_pronoun[of inp s c] g by metis
  show ?thesis using a[of inp] b c d e f by blast
qed

theorem resolve_reference_absent_slot_witness:
  "fst (resolve_reference (SessionContext_init ''user'' 0) ''that email'')
     = (Some ''email'', RVal PNone)
   \<and> fst (resolve_reference (SessionContext_init ''user'' 0) ''When is my next meeting?'')
     = (Some ''event'', RVal PNone)
   \<and> fst (resolve_reference (SessionContext_init ''user'' 0) ''Open that file'')
     = (Some ''file'', RVal PNone)
   \<and> fst (resolve_reference (add_commands (SessionContext_init ''user'' 0) [cal_fail]) ''It'')
     = (Some ''event'', RVal PNone)"
proof -
  let ?s0 = "SessionContext_init ''user'' 0"
  let ?s1 = "add_commands (SessionContext_init ''user'' 0) [cal_fail]"
  have r0: "map_of (references ?s0) k = None" for k by (simp add: SessionContext_init_def)
  have t1: "lower ''When is my next meeting?'' = ''when is my next meeting?''"
    and t2: "lower ''Open that file'' = ''open that file''"
    and t3: "lower ''It'' = ''it''"
    by code_simp+
  have n1: "\<not> list_ex (\<lambda>phrase. sublist phrase ''when is my next meeting?'') [''that email'', ''the email'', ''this email'']"
    "\<not> sublist ''last email'' ''when is my next meeting?''"
    "\<not> list_ex (\<lambda>phrase. sublist phrase ''when is my next meeting?'') [''that meeting'', ''the meeting'', ''this meeting'']"
    "list_ex (\<lambda>phrase. sublist phrase ''when is my next meeting?'') [''next meeting'', ''upcoming meeting'']"
    by code_simp+
  have n2: "\<not> list_ex (\<lambda>phrase. sublist phrase ''open that file'') [''that email'', ''the email'', ''this email'']"
    "\<not> sublist ''last email'' ''open that file''"
    "\<not> list_ex (\<lambda>phrase. sublist phrase ''open that file'') [''that meeting'', ''the meeting'', ''this meeting'']"
    "\<not> list_ex (\<lambda>phrase. sublist phrase ''open that file'') [''next meeting'', ''upcoming meeting'']"
    "list_ex (\<lambda>phrase. sublist phrase ''open that file'') [''that file'', ''the file'', ''this file'']"
    by code_simp+
  have h1: "get_last_command ?s1 = Some cal_fail"
    by (simp add: get_last_command_def history_add_commands SessionContext_init_def)
  have s1: "cr_service cal_fail = ''calendar''" by (simp add: cal_fail_def)
  have r1: "map_of (references ?s1) ''last_event'' = None" by code_simp
  have w1: "fst (resolve_reference ?s0 ''that email'') = (Some ''email'', RVal PNone)"
    using resolve_reference_absent_slot[of ?s0] r0 by blast
  have w2: "fst (resolve_reference ?s0 ''When is my next meeting?'') = (Some ''event'', RVal PNone)"
    using resolve_reference_absent_slot[of ?s0 "''When is my next meeting?''"] r0 n1
    unfolding t1 by blast
  have w3: "fst (resolve_reference ?s0 ''Open that file'') = (Some ''file'', RVal PNone)"
    using resolve_reference_absent_slot[of ?s0 "''Open that file''"] r0 n2
    unfolding t2 by blast
  have w4: "fst (resolve_reference ?s1 ''It'') = (Some ''event'', RVal PNone)"
    using resolve_reference_absent_slot[of ?s1 "''It''" cal_fail] h1 s1 r1
    unfolding t3 by simp
  show ?thesis using w1 w2 w3 w4 by blast
qed

section \<open>Parameter inference engine: properties\<close>

subsection \<open>Sequencing and the query parameter\<close>

lemma bind_err_Inr [simp]: "bind_err (Inr x) f = f x"
  by (simp add: bind_err_def)

lemma bind_err_Inl [simp]: "bind_err (Inl e) f = Inl e"
  by (simp add: bind_err_def)

lemma bind_err_eq_Inr: "bind_err m f = Inr y \<longleftrightarrow> (\<exists>x. m = Inr x \<and> f x = Inr y)"
  by (cases m) simp_all

lemma map_of_update_other: "k \<noteq> k' \<Longrightarrow> map_of (AList.update k' v p) k = map_of p k"
  by (simp add: update_conv')









subsection \<open>What the attendee and pronoun rules may change\<close>

lemma bind_err_InrE:
  assumes "bind_err m f = Inr y"
  obtains x where "m = Inr x" "f x = Inr y"
  using assms by (cases m) simp_all

lemma resolve_entity_keys:
  assumes "resolve_entity r idk infk p = Inr p'" "k \<noteq> idk" "k \<noteq> infk"
  shows "map_of p' k = map_of p k"
proof (cases "ref_truthy r")
  case False
  then show ?thesis using assms by (simp add: resolve_entity_def)
next
  case True
  then obtain d where "r = RVal (PDict d)"
    and "p' = AList.update infk (PDict d) (AList.update idk (dict_get d ''id'') p)"
    using assms(1) by (auto simp: resolve_entity_def split: refval.splits pyval.splits)
  then show ?thesis using assms(2,3) by (simp add: update_conv')
qed

lemma resolve_entity_falsy:
  assumes "resolve_entity r idk infk p = Inr p'" "\<not> ref_truthy r"
  shows "p' = p"
  using assms by (simp add: resolve_entity_def)



lemma them_recipients_cases:
  assumes "them_recipients s i p = Inr p'"
  obtains "p' = p"
  | att where "i = ''send_email''" "p' = AList.update ''to'' (PList att) p"
  | att where "i = ''share_file''"
      "p' = AList.update ''email'' (case att of [a] \<Rightarrow> a | _ \<Rightarrow> PList att)
              (AList.update ''emails'' (PList att) p)"
proof -
  from assms[unfolded them_recipients_def] obtain att where
    r: "(if att \<noteq> [] then
            if i = ''send_email'' then
              Inr (AList.update ''to'' (PList att) p)
            else if i = ''share_file'' then
              Inr (AList.update ''email''
                     (case att of [a] \<Rightarrow> a | _ \<Rightarrow> PList att)
                     (AList.update ''emails'' (PList att) p))
            else Inr p
          else Inr p) = (Inr p' :: error + pydict)"
    by (rule bind_err_InrE)
  show thesis
  proof (cases "att \<noteq> []")
    case False
    then have "p' = p" using r by simp
    then show thesis by (rule that(1))
  next
    case ne: True
    show thesis
    proof (cases "i = ''send_email''")
      case True
      then have "p' = AList.update ''to'' (PList att) p" using r ne by simp
      with True show thesis by (rule that(2))
    next
      case ns: False
      show thesis
      proof (cases "i = ''share_file''")
        case True
        then have "p' = AList.update ''email'' (case att of [a] \<Rightarrow> a | _ \<Rightarrow> PList att)
              (AList.update ''emails'' (PList att) p)"
          using r ne ns by simp
        with True show thesis by (rule that(3))
      next
        case False
        then have "p' = p" using r ne ns by simp
        then show thesis by (rule that(1))
      qed
    qed
  qed
qed

lemma them_recipients_keys:
  assumes "them_recipients s i p = Inr p'"
    and "k \<noteq> ''to''" "k \<noteq> ''emails''" "k \<noteq> ''email''"
  shows "map_of p' k = map_of p k"
  using assms(1)
proof (cases rule: them_recipients_cases)
  case 1
  then show ?thesis by simp
next
  case (2 att)
  then show ?thesis using assms(2) by (simp add: update_conv')
next
  case (3 att)
  then show ?thesis using assms(3,4) by (simp add: update_conv')
qed

lemma them_recipients_other_intent:
  assumes "them_recipients s i p = Inr p'" "i \<noteq> ''send_email''" "i \<noteq> ''share_file''"
  shows "p' = p"
  using assms(1)
proof (cases rule: them_recipients_cases)
  case 1
  then show ?thesis .
next
  case (2 att)
  then show ?thesis using assms(2) by simp
next
  case (3 att)
  then show ?thesis using assms(3) by simp
qed

lemma resolve_pronouns_split:
  assumes "resolve_pronouns eng cmd i p = Inr p'" "session eng = Some s"
  obtains p1 where
    "(if bare_pronoun cmd then pronoun_entity s i p else Inr p) = Inr p1"
    "(if sublist '' them '' (padded cmd) \<or> prefix ''them'' cmd
      then them_recipients s i p1 else Inr p1) = Inr p'"
proof -
  have "bind_err
          (if bare_pronoun cmd then pronoun_entity s i p else Inr p)
          (\<lambda>params1.
             if sublist '' them '' (padded cmd) \<or> prefix ''them'' cmd
             then them_recipients s i params1
             else Inr params1) = Inr p'"
    using assms by (simp add: resolve_pronouns_def)
  then show thesis by (rule bind_err_InrE) (rule that)
qed

lemma pronoun_entity_cases:
  assumes "pronoun_entity s i p = Inr p'"
  obtains "p' = p"
  | "resolve_entity (get_reference s ''last_file'') ''file_id'' ''inferred_file'' p = Inr p'"
  | "resolve_entity (get_reference s ''last_email'') ''email_id'' ''inferred_email'' p = Inr p'"
  | "i \<in> set [''update_event'', ''delete_event'']"
    "resolve_entity (get_reference s ''last_event'') ''event_id'' ''inferred_event'' p = Inr p'"
proof (cases "i \<in> set [''share_file'', ''download_file'', ''delete_file'']")
  case True
  then show thesis using assms that(2) unfolding pronoun_entity_def by (simp only: if_True)
next
  case f1: False
  show thesis
  proof (cases "i \<in> set [''read_email'', ''delete_email'']")
    case True
    then show thesis using assms that(3) f1 unfolding pronoun_entity_def
      by (simp only: if_True if_False)
  next
    case f2: False
    show thesis
    proof (cases "i \<in> set [''update_event'', ''delete_event'']")
      case True
      then show thesis using assms that(4) f1 f2 unfolding pronoun_entity_def
        by (simp only: if_True if_False)
    next
      case False
      then have "Inr p = (Inr p' :: error + pydict)"
        using assms f1 f2 unfolding pronoun_entity_def by (simp only: if_False)
      then show thesis using that(1) by simp
    qed
  qed
qed

lemma pronoun_entity_keys:
  assumes "pronoun_entity s i p = Inr p'"
    and "k \<noteq> ''file_id''" "k \<noteq> ''inferred_file''" "k \<noteq> ''email_id''"
        "k \<noteq> ''inferred_email''" "k \<noteq> ''event_id''" "k \<noteq> ''inferred_event''"
  shows "map_of p' k = map_of p k"
  using assms(1)
proof (cases rule: pronoun_entity_cases)
  case 1
  then show ?thesis by simp
next
  case 2
  then show ?thesis using assms(2,3) by (rule resolve_entity_keys)
next
  case 3
  then show ?thesis using assms(4,5) by (rule resolve_entity_keys)
next
  case 4
  from 4(2) show ?thesis using assms(6,7) by (rule resolve_entity_keys)
qed

lemma resolve_pronouns_keys:
  assumes "resolve_pronouns eng cmd i p = Inr p'"
    and "k \<noteq> ''file_id''" "k \<noteq> ''inferred_file''" "k \<noteq> ''email_id''"
        "k \<noteq> ''inferred_email''" "k \<noteq> ''event_id''" "k \<noteq> ''inferred_event''"
    and "k \<noteq> ''to''" "k \<noteq> ''emails''" "k \<noteq> ''email''"
  shows "map_of p' k = map_of p k"
proof (cases "session eng")
  case None
  then show ?thesis using assms(1) by (simp add: resolve_pronouns_def)
next
  case (Some s)
  from assms(1) Some obtain p1 where
    a: "(if bare_pronoun cmd then pronoun_entity s i p else Inr p) = Inr p1"
    and b: "(if sublist '' them '' (padded cmd) \<or> prefix ''them'' cmd
             then them_recipients s i p1 else Inr p1) = Inr p'"
    by (rule resolve_pronouns_split)
  have 1: "map_of p1 k = map_of p k"
  proof (cases "bare_pronoun cmd")
    case True
    then have "pronoun_entity s i p = Inr p1" using a by simp
    then show ?thesis using assms(2-7) by (rule pronoun_entity_keys)
  next
    case False
    then show ?thesis using a by simp
  qed
  have 2: "map_of p' k = map_of p1 k"
  proof (cases "sublist '' them '' (padded cmd) \<or> prefix ''them'' cmd")
    case True
    then have "them_recipients s i p1 = Inr p'" using b by (simp only: if_True)
    then show ?thesis using assms(8-10) by (rule them_recipients_keys)
  next
    case False
    then have "Inr p1 = (Inr p' :: error + pydict)" using b by (simp only: if_False)
    then show ?thesis by simp
  qed
  show ?thesis using 1 2 by simp
qed

lemma event_class_not_mail:
  assumes "i \<in> set [''search_event'', ''update_event'', ''delete_event'', ''list_events'']"
  shows "i \<noteq> ''send_email''" "i \<noteq> ''share_file''"
    "i \<notin> set [''share_file'', ''download_file'', ''delete_file'']"
    "i \<notin> set [''read_email'', ''delete_email'']"
    "i \<notin> set [''send_email'', ''read_email'', ''delete_email'', ''search_email'']"
  using assms by auto

lemma resolve_pronouns_event_class:
  assumes "resolve_pronouns eng cmd i p = Inr p'"
    and "i \<in> set [''search_event'', ''update_event'', ''delete_event'', ''list_events'']"
    and "\<not> (bare_pronoun cmd \<and> i \<in> set [''update_event'', ''delete_event'']
            \<and> (\<exists>s. session eng = Some s \<and> ref_truthy (get_reference s ''last_event'')))"
  shows "p' = p"
proof (cases "session eng")
  case None
  then show ?thesis using assms(1) by (simp add: resolve_pronouns_def)
next
  case (Some s)
  from assms(1) Some obtain p1 where
    a: "(if bare_pronoun cmd then pronoun_entity s i p else Inr p) = Inr p1"
    and b: "(if sublist '' them '' (padded cmd) \<or> prefix ''them'' cmd
             then them_recipients s i p1 else Inr p1) = Inr p'"
    by (rule resolve_pronouns_split)
  note ec = event_class_not_mail[OF assms(2)]
  have 1: "p1 = p"
  proof (cases "bare_pronoun cmd")
    case False
    then show ?thesis using a by simp
  next
    case True
    then have pe: "pronoun_entity s i p = Inr p1" using a by simp
    show ?thesis
    proof (cases "i \<in> set [''update_event'', ''delete_event'']")
      case ud: True
      then have "resolve_entity (get_reference s ''last_event'') ''event_id'' ''inferred_event'' p
                   = Inr p1"
        using pe ec(3,4) unfolding pronoun_entity_def by (simp only: if_True if_False)
      moreover have "\<not> ref_truthy (get_reference s ''last_event'')"
        using assms(3) ud Some True by blast
      ultimately show ?thesis by (rule resolve_entity_falsy)
    next
      case False
      then have "Inr p = (Inr p1 :: error + pydict)"
        using pe ec(3,4) unfolding pronoun_entity_def by (simp only: if_False)
      then show ?thesis by simp
    qed
  qed
  have 2: "p' = p1"
  proof (cases "sublist '' them '' (padded cmd) \<or> prefix ''them'' cmd")
    case True
    then have "them_recipients s i p1 = Inr p'" using b by (simp only: if_True)
    then show ?thesis using ec(1,2) by (rule them_recipients_other_intent)
  next
    case False
    then have "Inr p1 = (Inr p' :: error + pydict)" using b by (simp only: if_False)
    then show ?thesis by simp
  qed
  show ?thesis using 1 2 by simp
qed

subsection \<open>Mail filters\<close>

















subsection \<open>The next meeting\<close>

lemma infer_parameters_event:
  assumes "i \<in> set [''search_event'', ''update_event'', ''delete_event'', ''list_events'']"
  shows "infer_parameters eng cmd i params =
           (resolve_pronouns (snd (infer_meeting_params eng (lower cmd) params)) (lower cmd) i
              (fst (infer_meeting_params eng (lower cmd) params)),
            snd (infer_meeting_params eng (lower cmd) params))"
  unfolding infer_parameters_def Let_def
  by (simp only: event_class_not_mail[OF assms] assms if_True if_False case_prod_beta
        fst_conv snd_conv split_conv bind_err_Inr simp_thms)

lemma days_rule_keys:
  assumes "k \<noteq> ''days''"
  shows "map_of (if a then AList.update ''days'' x p
                 else if b then AList.update ''days'' y p
                 else if c then AList.update ''days'' z p else p) k = map_of p k"
  using assms by (simp add: update_conv')

lemma infer_meeting_params_lookup:
  assumes "sublist ''next meeting'' cmd \<or> sublist ''upcoming meeting'' cmd"
    and "calendar_service eng = Some list_events"
  shows "calls (snd (infer_meeting_params eng cmd params)) = calls eng @ [ListEvents 7 1]"
    and "list_events 7 1 = Inr (ev # rest) \<Longrightarrow>
           session (snd (infer_meeting_params eng cmd params))
             = map_option (set_reference ''next_meeting'' (RVal (PDict ev))) (session eng)"
    and "list_events 7 1 = Inr (ev # rest) \<Longrightarrow>
           map_of (fst (infer_meeting_params eng cmd params)) ''summary''
             = Some (dict_get ev ''summary'')
           \<and> map_of (fst (infer_meeting_params eng cmd params)) ''event_id''
             = Some (dict_get ev ''id'')
           \<and> map_of (fst (infer_meeting_params eng cmd params)) ''inferred_event''
             = Some (PDict ev)"
proof -
  show "calls (snd (infer_meeting_params eng cmd params)) = calls eng @ [ListEvents 7 1]"
    using assms
    by (simp add: infer_meeting_params_def Let_def case_prod_beta
          split: sum.splits list.splits option.splits)
  show "list_events 7 1 = Inr (ev # rest) \<Longrightarrow>
           session (snd (infer_meeting_params eng cmd params))
             = map_option (set_reference ''next_meeting'' (RVal (PDict ev))) (session eng)"
    using assms
    by (simp add: infer_meeting_params_def Let_def case_prod_beta split: option.splits)
  show "list_events 7 1 = Inr (ev # rest) \<Longrightarrow>
           map_of (fst (infer_meeting_params eng cmd params)) ''summary''
             = Some (dict_get ev ''summary'')
           \<and> map_of (fst (infer_meeting_params eng cmd params)) ''event_id''
             = Some (dict_get ev ''id'')
           \<and> map_of (fst (infer_meeting_params eng cmd params)) ''inferred_event''
             = Some (PDict ev)"
    using assms
    by (simp add: infer_meeting_params_def Let_def case_prod_beta days_rule_keys update_conv'
          split: option.splits)
qed

lemma get_reference_next_meeting_other:
  "k \<noteq> ''next_meeting'' \<Longrightarrow>
     get_reference (set_reference ''next_meeting'' v s) k = get_reference s k"
  by (simp add: get_reference_def set_reference_def update_conv')

text \<open>
  C3, as the claim states it, fails: the lookup asks for the coming 7 days, not for 1 day.
\<close>

theorem next_meeting_lookup_counterexample:
  "calls (snd (infer_parameters demo_engine ''When is my next meeting?'' ''search_event'' []))
     = [ListEvents 7 1]
   \<and> ListEvents 1 1
       \<notin> set (calls (snd (infer_parameters demo_engine ''When is my next meeting?''
                              ''search_event'' [])))"
  by code_simp

text \<open>
  C3, amended: for every event-class intent whose command text contains "next meeting" or
  "upcoming meeting", and an engine with a calendar service, \<^verbatim>\<open>infer_parameters\<close> issues
  exactly one calendar lookup, for the coming 7 days with at most 1 result. When the
  lookup returns an event, \<^verbatim>\<open>next_meeting\<close> is written into the references of the
  attached session, and a returned parameter set has \<^verbatim>\<open>summary\<close> from that event, and
  \<^verbatim>\<open>event_id\<close> and \<^verbatim>\<open>inferred_event\<close> from it as well unless the pronoun rule applies (a
  bare it/that/this, intent \<^verbatim>\<open>update_event\<close> or \<^verbatim>\<open>delete_event\<close>, a \<^verbatim>\<open>last_event\<close>
  reference that is set). Without a session the call always returns.
\<close>

theorem next_meeting_inference:
  assumes "int_name \<in> set [''search_event'', ''update_event'', ''delete_event'', ''list_events'']"
    and "sublist ''next meeting'' (lower cmd) \<or> sublist ''upcoming meeting'' (lower cmd)"
    and "calendar_service eng = Some list_events"
  shows "calls (snd (infer_parameters eng cmd int_name params)) = calls eng @ [ListEvents 7 1]
     \<and> (list_events 7 1 = Inr (ev # rest) \<longrightarrow>
          session (snd (infer_parameters eng cmd int_name params))
            = map_option (set_reference ''next_meeting'' (RVal (PDict ev))) (session eng)
          \<and> (\<forall>p'. fst (infer_parameters eng cmd int_name params) = Inr p' \<longrightarrow>
                map_of p' ''summary'' = Some (dict_get ev ''summary'')
                \<and> (\<not> (bare_pronoun (lower cmd)
                        \<and> int_name \<in> set [''update_event'', ''delete_event'']
                        \<and> (\<exists>s. session eng = Some s
                                \<and> ref_truthy (get_reference s ''last_event'')))
                     \<longrightarrow> map_of p' ''event_id'' = Some (dict_get ev ''id'')
                         \<and> map_of p' ''inferred_event'' = Some (PDict ev)))
          \<and> (session eng = None \<longrightarrow>
                (\<exists>p'. fst (infer_parameters eng cmd int_name params) = Inr p')))"
proof -
  define mp where "mp = infer_meeting_params eng (lower cmd) params"
  have ip: "infer_parameters eng cmd int_name params
              = (resolve_pronouns (snd mp) (lower cmd) int_name (fst mp), snd mp)"
    unfolding mp_def by (rule infer_parameters_event[OF assms(1)])
  note lk = infer_meeting_params_lookup[OF assms(2,3), where params = params, folded mp_def]
  have c: "calls (snd (infer_parameters eng cmd int_name params)) = calls eng @ [ListEvents 7 1]"
    unfolding ip using lk(1) by simp
  have rest: "session (snd (infer_parameters eng cmd int_name params))
            = map_option (set_reference ''next_meeting'' (RVal (PDict ev))) (session eng)
          \<and> (\<forall>p'. fst (infer_parameters eng cmd int_name params) = Inr p' \<longrightarrow>
                map_of p' ''summary'' = Some (dict_get ev ''summary'')
                \<and> (\<not> (bare_pronoun (lower cmd)
                        \<and> int_name \<in> set [''update_event'', ''delete_event'']
                        \<and> (\<exists>s. session eng = Some s
                                \<and> ref_truthy (get_reference s ''last_event'')))
                     \<longrightarrow> map_of p' ''event_id'' = Some (dict_get ev ''id'')
                         \<and> map_of p' ''inferred_event'' = Some (PDict ev)))
          \<and> (session eng = None \<longrightarrow>
                (\<exists>p'. fst (infer_parameters eng cmd int_name params) = Inr p'))"
    if ev: "list_events 7 1 = Inr (ev # rest)"
  proof (intro conjI allI impI)
    show s: "session (snd (infer_parameters eng cmd int_name params))
            = map_option (set_reference ''next_meeting'' (RVal (PDict ev))) (session eng)"
      unfolding ip using lk(2)[OF ev] by simp
    have ss: "session (snd mp) = map_option (set_reference ''next_meeting'' (RVal (PDict ev))) (session eng)"
      using lk(2)[OF ev] .
    {
      fix p'
      assume r: "fst (infer_parameters eng cmd int_name params) = Inr p'"
      then have rp: "resolve_pronouns (snd mp) (lower cmd) int_name (fst mp) = Inr p'"
        unfolding ip by simp
      have "map_of p' ''summary'' = map_of (fst mp) ''summary''"
        using rp by (rule resolve_pronouns_keys) simp_all
      then show "map_of p' ''summary'' = Some (dict_get ev ''summary'')"
        using lk(3)[OF ev] by simp
      assume no: "\<not> (bare_pronoun (lower cmd)
                        \<and> int_name \<in> set [''update_event'', ''delete_event'']
                        \<and> (\<exists>s. session eng = Some s
                                \<and> ref_truthy (get_reference s ''last_event'')))"
      have no': "\<not> (bare_pronoun (lower cmd)
                        \<and> int_name \<in> set [''update_event'', ''delete_event'']
                        \<and> (\<exists>s. session (snd mp) = Some s
                                \<and> ref_truthy (get_reference s ''last_event'')))"
        using no unfolding ss
        by (cases "session eng") (auto simp: get_reference_next_meeting_other)
      have "p' = fst mp" using rp assms(1) no' by (rule resolve_pronouns_event_class)
      then show "map_of p' ''event_id'' = Some (dict_get ev ''id'')"
        and "map_of p' ''inferred_event'' = Some (PDict ev)"
        using lk(3)[OF ev] by simp_all
    }
    assume "session eng = None"
    then have "session (snd mp) = None" using ss by simp
    then show "\<exists>p'. fst (infer_parameters eng cmd int_name params) = Inr p'"
      unfolding ip by (simp add: resolve_pronouns_def)
  qed
  show ?thesis using c rest by blast
qed

theorem next_meeting_inference_witness:
  "calls (snd (infer_parameters demo_engine ''When is my next meeting?'' ''search_event'' []))
     = [ListEvents 7 1]
   \<and> fst (infer_parameters demo_engine ''When is my next meeting?'' ''search_event'' [])
       = Inr [(''inferred_event'', PDict standup), (''event_id'', PStr ''evt1''),
              (''summary'', PStr ''Standup'')]
   \<and> map_option (\<lambda>s. get_reference s ''next_meeting'')
        (session (snd (infer_parameters demo_engine ''When is my next meeting?''
                         ''search_event'' [])))
       = Some (RVal (PDict standup))"
proof -
  have i: "''search_event'' \<in> set [''search_event'', ''update_event'', ''delete_event'', ''list_events'']"
    by simp
  have t: "sublist ''next meeting'' (lower ''When is my next meeting?'')
           \<or> sublist ''upcoming meeting'' (lower ''When is my next meeting?'')"
    by code_simp
  have c: "calendar_service demo_engine = Some (\<lambda>days_ahead max_results. Inr [standup])"
    by (simp add: demo_engine_def)
  have r: "fst (infer_parameters demo_engine ''When is my next meeting?'' ''search_event'' [])
       = Inr [(''inferred_event'', PDict standup), (''event_id'', PStr ''evt1''),
              (''summary'', PStr ''Standup'')]"
    by code_simp
  from next_meeting_inference[OF i t c, where ev = standup and rest = "[]" and params = "[]"]
  have 1: "calls (snd (infer_parameters demo_engine ''When is my next meeting?'' ''search_event'' []))
             = calls demo_engine @ [ListEvents 7 1]"
    and 2: "session (snd (infer_parameters demo_engine ''When is my next meeting?''
                         ''search_event'' []))
             = map_option (set_reference ''next_meeting'' (RVal (PDict standup)))
                 (session demo_engine)"
    by simp_all
  have 3: "map_option (\<lambda>s. get_reference s ''next_meeting'')
             (map_option (set_reference ''next_meeting'' (RVal (PDict standup)))
                (session demo_engine)) = Some (RVal (PDict standup))"
    by (simp add: demo_engine_def get_set_reference)
  show ?thesis unfolding 1 2 3 using r by (simp add: demo_engine_def)
qed

end
